theory Spec2Isabelle
  imports Main "HOL-Library.Word" "HOL-Library.Sublist"
begin

section \<open>The announcement monitor (binance-monitor.ts)\<close>

text \<open>
  A shallow embedding of the class \<open>BinanceMonitorDO\<close>: its constructor, the feed
  client \<open>fetchAnnouncements\<close>, the notifier \<open>notifyWebhooks\<close> with its two URL
  helpers, \<open>start\<close>, \<open>stop\<close> and the wake handler \<open>alarm\<close>.

  Every \<open>async\<close> method is a function from the state before the call to a result and
  the state after it. The result is a sum: \<open>Inl e\<close> is the method's promise rejecting
  with \<open>e\<close>, \<open>Inr v\<close> is it resolving with \<open>v\<close>. What the outside world answers (the
  feed, each webhook, the clock) is read from a \<open>world\<close> of oracles, so that the
  functions are deterministic and a theorem quantifies over every world.

  The boundary of the model. The HTTP handler \<open>fetch\<close> of the class (the admin
  surface) is not embedded: no property below reads it. The calls on \<open>state.storage\<close>
  (\<open>get\<close>, \<open>put\<close>, \<open>setAlarm\<close>, \<open>deleteAlarm\<close>) and \<open>console.error\<close> are taken to return
  normally. An \<open>id\<close> is an integer. One method runs at a time: no request is
  served while a cycle is between two of its steps.
\<close>

subsection \<open>JavaScript strings\<close>

text \<open>
  A JavaScript string is a sequence of UTF-16 code units, and nothing forces the
  surrogates in it to be paired: \<open>JSON.parse\<close> turns the escape \<open>\ud800\<close> into a lone
  surrogate. \<open>str\<close> embeds an ASCII literal.
\<close>

type_synonym code_unit = "16 word"
type_synonym js_string = "code_unit list"

definition str :: "string \<Rightarrow> js_string" where
  "str cs = map (\<lambda>c. of_nat (of_char c)) cs"

text \<open>
  \<open>String.prototype.includes(t)\<close>: does \<open>t\<close> occur in \<open>s\<close> as a contiguous run of
  code units, starting at any position?
\<close>

fun includes_str :: "js_string \<Rightarrow> js_string \<Rightarrow> bool" where
  "includes_str [] t = (t = [])"
| "includes_str (c # cs) t = (prefix t (c # cs) \<or> includes_str cs t)"

datatype error =
    NetworkError \<comment> \<open>\<open>fetch\<close> rejected\<close>
  | FailedToFetch \<comment> \<open>\<open>new Error("Failed to fetch announcements")\<close>\<close>
  | SyntaxError \<comment> \<open>\<open>response.json()\<close> rejected\<close>
  | URIError \<comment> \<open>\<open>encodeURIComponent\<close> met a lone surrogate\<close>
  | WebhookFailed \<comment> \<open>\<open>new Error("Webhook notification failed: ...")\<close>\<close>

subsubsection \<open>encodeURIComponent\<close>

text \<open>
  ECMAScript's \<open>Encode(string, unescapedSet)\<close> with the set of \<open>encodeURIComponent\<close>:
  letters, digits and \<open>- _ . ! ~ * ' ( )\<close> are copied; any other code point is written
  as the \<open>%XX\<close> escapes of its UTF-8 octets; a surrogate that is not half of a pair
  throws a URIError.
\<close>

definition uriUnescaped :: "code_unit \<Rightarrow> bool" where
  "uriUnescaped c \<longleftrightarrow>
     (let n = unat c in
      (65 \<le> n \<and> n \<le> 90) \<or> (97 \<le> n \<and> n \<le> 122) \<or> (48 \<le> n \<and> n \<le> 57) \<or>
      n \<in> {45, 95, 46, 33, 126, 42, 39, 40, 41})"

definition isLeadingSurrogate :: "code_unit \<Rightarrow> bool" where
  "isLeadingSurrogate c \<longleftrightarrow> 0xD800 \<le> unat c \<and> unat c \<le> 0xDBFF"

definition isTrailingSurrogate :: "code_unit \<Rightarrow> bool" where
  "isTrailingSurrogate c \<longleftrightarrow> 0xDC00 \<le> unat c \<and> unat c \<le> 0xDFFF"

definition surrogatePairToCodePoint :: "code_unit \<Rightarrow> code_unit \<Rightarrow> nat" where
  "surrogatePairToCodePoint lead trail =
     (unat lead - 0xD800) * 0x400 + (unat trail - 0xDC00) + 0x10000"

definition utf8 :: "nat \<Rightarrow> nat list" where
  "utf8 cp =
     (if cp < 0x80 then [cp]
      else if cp < 0x800 then [0xC0 + cp div 64, 0x80 + cp mod 64]
      else if cp < 0x10000 then
        [0xE0 + cp div 4096, 0x80 + (cp div 64) mod 64, 0x80 + cp mod 64]
      else
        [0xF0 + cp div 262144, 0x80 + (cp div 4096) mod 64,
         0x80 + (cp div 64) mod 64, 0x80 + cp mod 64])"

definition hexDigit :: "nat \<Rightarrow> code_unit" where
  "hexDigit d = (if d < 10 then of_nat (48 + d) else of_nat (55 + d))"

definition percentEscape :: "nat \<Rightarrow> js_string" where
  "percentEscape octet = [37, hexDigit (octet div 16), hexDigit (octet mod 16)]"

fun encodeURIComponent :: "js_string \<Rightarrow> error + js_string" where
  "encodeURIComponent [] = Inr []"
| "encodeURIComponent [c] =
     (if uriUnescaped c then Inr [c]
      else if isLeadingSurrogate c \<or> isTrailingSurrogate c then Inl URIError
      else Inr (concat (map percentEscape (utf8 (unat c)))))"
| "encodeURIComponent (c # d # ds) =
     (if uriUnescaped c then
        (case encodeURIComponent (d # ds) of
           Inl e \<Rightarrow> Inl e
         | Inr r \<Rightarrow> Inr (c # r))
      else if \<not> isLeadingSurrogate c \<and> \<not> isTrailingSurrogate c then
        (case encodeURIComponent (d # ds) of
           Inl e \<Rightarrow> Inl e
         | Inr r \<Rightarrow> Inr (concat (map percentEscape (utf8 (unat c))) @ r))
      else if isTrailingSurrogate c then Inl URIError
      else if \<not> isTrailingSurrogate d then Inl URIError
      else
        (case encodeURIComponent ds of
           Inl e \<Rightarrow> Inl e
         | Inr r \<Rightarrow>
             Inr (concat (map percentEscape (utf8 (surrogatePairToCodePoint c d))) @ r)))"

text \<open>
  \<open>String.prototype.isWellFormed\<close>: no lone surrogate. It is the exact condition under
  which \<open>encodeURIComponent\<close> returns.
\<close>

fun isWellFormed :: "js_string \<Rightarrow> bool" where
  "isWellFormed [] = True"
| "isWellFormed [c] = (\<not> isLeadingSurrogate c \<and> \<not> isTrailingSurrogate c)"
| "isWellFormed (c # d # ds) =
     (if isLeadingSurrogate c then isTrailingSurrogate d \<and> isWellFormed ds
      else \<not> isTrailingSurrogate c \<and> isWellFormed (d # ds))"

subsection \<open>Data\<close>

record webhook =
  secret :: js_string
  url :: js_string

record announcement =
  id_num :: int \<comment> \<open>the field \<open>id\<close>\<close>
  title :: js_string
  code :: js_string
  publishDate :: js_string

text \<open>
  The body posted to a subscriber. \<open>timestamp\<close> is the reading of the clock taken by
  \<open>new Date()\<close>, in milliseconds; the formatting done by \<open>toISOString\<close> and
  \<open>JSON.stringify\<close> is not modelled.
\<close>

record payload_announcement =
  p_title :: js_string
  p_code :: js_string
  p_url :: js_string
  p_publishDate :: js_string

record payload =
  timestamp :: int
  p_announcement :: payload_announcement

type_synonym headers = "(js_string \<times> js_string) list"

text \<open>
  The parsed feed body, as far as \<open>data?.data?.catalogs\<close> looks into it. \<open>None\<close> is a
  value that is null, undefined or missing. The method's return type
  \<open>Promise<Announcement[]>\<close> takes a \<open>catalogs\<close> that is present to be an array of
  announcements.
\<close>

record feed_data =
  catalogs :: "announcement list option"

record feed_json =
  data :: "feed_data option"

datatype json_outcome =
    JsonRejected \<comment> \<open>\<open>response.json()\<close> rejects: the body is not JSON\<close>
  | Json "feed_json option"

datatype feed_outcome =
    FetchRejected \<comment> \<open>transport error\<close>
  | Response bool json_outcome \<comment> \<open>\<open>response.ok\<close> and the body\<close>

datatype post_outcome =
    PostRejected \<comment> \<open>transport error\<close>
  | PostResponse bool \<comment> \<open>\<open>response.ok\<close>\<close>

text \<open>
  The world outside: what the feed answers in this cycle, what the \<open>k\<close>-th webhook
  request receives, and what the \<open>k\<close>-th reading of \<open>Date.now()\<close> returns.
\<close>

record world =
  feed :: feed_outcome
  webhook_reply :: "nat \<Rightarrow> post_outcome"
  clock :: "nat \<Rightarrow> int"

text \<open>
  The calls that leave the object, in the order they are made. \<open>Called_notifyWebhooks\<close>
  marks each entry into the notifier, which posts nothing when there is no subscriber.
\<close>

datatype event =
    Feed_GET js_string
  | Webhook_POST js_string headers payload
  | Put_lastAnnouncementId int
  | Put_isMonitoring bool
  | SetAlarm int
  | DeleteAlarm
  | Console_error error
  | Called_notifyWebhooks announcement

text \<open>
  \<open>state.storage\<close>: the four persisted keys (\<open>None\<close>: the key was never put) and the
  single alarm of the durable object (\<open>None\<close>: no alarm is armed).
\<close>

record durable_storage =
  stored_webhooks :: "webhook list option"
  stored_lastAnnouncementId :: "int option"
  stored_isMonitoring :: "bool option"
  stored_watchList :: "js_string list option"
  armed :: "int option"

text \<open>
  The object's fields, followed by the bookkeeping of the model: how many clock readings
  and webhook requests were made so far (the indices into the oracles of the world) and
  the trace of events.
\<close>

record monitor =
  webhooks :: "webhook list"
  watchList :: "js_string list"
  lastAnnouncementId :: "int option"
  isMonitoring :: bool \<comment> \<open>the field \<open>_isMonitoring\<close>\<close>
  pollingInterval :: int
  storage :: durable_storage
  ticks :: nat
  requests :: nat
  trace :: "event list"

type_synonym 'a async = "monitor \<Rightarrow> (error + 'a) \<times> monitor"

subsection \<open>Control flow\<close>

definition try_catch :: "'a async \<Rightarrow> (error \<Rightarrow> 'a async) \<Rightarrow> 'a async" where
  "try_catch body handler s =
     (case body s of
        (Inl e, s') \<Rightarrow> handler e s'
      | (Inr v, s') \<Rightarrow> (Inr v, s'))"

text \<open>
  \<open>try { body } finally { fin }\<close>: \<open>fin\<close> runs whatever \<open>body\<close> did, also after a
  \<open>return\<close> inside it; the outcome is the one of \<open>body\<close> unless \<open>fin\<close> throws.
\<close>

definition try_finally :: "'a async \<Rightarrow> unit async \<Rightarrow> 'a async" where
  "try_finally body fin s =
     (case body s of
        (r, s') \<Rightarrow>
          (case fin s' of
             (Inl e, s'') \<Rightarrow> (Inl e, s'')
           | (Inr _, s'') \<Rightarrow> (r, s'')))"

subsection \<open>The runtime\<close>

definition Date_now :: "world \<Rightarrow> monitor \<Rightarrow> int \<times> monitor" where
  "Date_now w s = (clock w (ticks s), s\<lparr>ticks := ticks s + 1\<rparr>)"

definition console_error :: "error \<Rightarrow> monitor \<Rightarrow> monitor" where
  "console_error e s = s\<lparr>trace := trace s @ [Console_error e]\<rparr>"

definition setAlarm :: "int \<Rightarrow> monitor \<Rightarrow> monitor" where
  "setAlarm t s =
     s\<lparr>storage := (storage s)\<lparr>armed := Some t\<rparr>, trace := trace s @ [SetAlarm t]\<rparr>"

definition deleteAlarm :: "monitor \<Rightarrow> monitor" where
  "deleteAlarm s =
     s\<lparr>storage := (storage s)\<lparr>armed := None\<rparr>, trace := trace s @ [DeleteAlarm]\<rparr>"

definition put_lastAnnouncementId :: "int \<Rightarrow> monitor \<Rightarrow> monitor" where
  "put_lastAnnouncementId v s =
     s\<lparr>storage := (storage s)\<lparr>stored_lastAnnouncementId := Some v\<rparr>,
       trace := trace s @ [Put_lastAnnouncementId v]\<rparr>"

definition put_isMonitoring :: "bool \<Rightarrow> monitor \<Rightarrow> monitor" where
  "put_isMonitoring b s =
     s\<lparr>storage := (storage s)\<lparr>stored_isMonitoring := Some b\<rparr>,
       trace := trace s @ [Put_isMonitoring b]\<rparr>"

subsection \<open>constructor\<close>

text \<open>
  \<open>parsed\<close> is \<open>parseInt(env.POLLING_INTERVAL)\<close>, \<open>None\<close> for NaN. Each \<open>x || d\<close> of the
  source replaces a falsy \<open>x\<close>: an absent key, the number 0, \<open>false\<close>. An array is
  truthy even when empty.
\<close>

definition or_3000 :: "int option \<Rightarrow> int" where
  "or_3000 parsed = (case parsed of None \<Rightarrow> 3000 | Some n \<Rightarrow> if n = 0 then 3000 else n)"

definition or_null :: "int option \<Rightarrow> int option" where
  "or_null v = (case v of None \<Rightarrow> None | Some n \<Rightarrow> if n = 0 then None else Some n)"

definition or_false :: "bool option \<Rightarrow> bool" where
  "or_false v = (case v of None \<Rightarrow> False | Some b \<Rightarrow> b)"

definition or_empty :: "'a list option \<Rightarrow> 'a list" where
  "or_empty v = (case v of None \<Rightarrow> [] | Some xs \<Rightarrow> xs)"

definition constructor :: "int option \<Rightarrow> world \<Rightarrow> durable_storage \<Rightarrow> monitor" where
  "constructor parsed w stored =
     (let s = \<lparr>webhooks = or_empty (stored_webhooks stored),
                watchList = or_empty (stored_watchList stored),
                lastAnnouncementId = or_null (stored_lastAnnouncementId stored),
                isMonitoring = or_false (stored_isMonitoring stored),
                pollingInterval = or_3000 parsed,
                storage = stored,
                ticks = 0, requests = 0, trace = []\<rparr>
      in if isMonitoring s then
           (case Date_now w s of (t, s') \<Rightarrow> setAlarm (t + pollingInterval s') s')
         else s)"

subsection \<open>fetchAnnouncements\<close>

definition BINANCE_API :: js_string where
  "BINANCE_API = str ''https://www.binance.com/bapi/composite/v1/public/cms/article/list/query''"

definition params :: js_string where
  "params = str ''type=1&catalogId=48&pageNo=1&pageSize=20''"

definition optional_catalogs :: "feed_json option \<Rightarrow> announcement list option" where
  "optional_catalogs d =
     (case d of
        None \<Rightarrow> None
      | Some j \<Rightarrow> (case data j of None \<Rightarrow> None | Some dd \<Rightarrow> catalogs dd))"

definition fetchAnnouncements_try :: "world \<Rightarrow> (announcement list) async" where
  "fetchAnnouncements_try w s =
     (let s' = s\<lparr>trace := trace s @ [Feed_GET (BINANCE_API @ str ''?'' @ params)]\<rparr>
      in case feed w of
           FetchRejected \<Rightarrow> (Inl NetworkError, s')
         | Response ok body \<Rightarrow>
             if \<not> ok then (Inl FailedToFetch, s')
             else (case body of
                     JsonRejected \<Rightarrow> (Inl SyntaxError, s')
                   | Json d \<Rightarrow> (Inr (or_empty (optional_catalogs d)), s')))"

definition fetchAnnouncements :: "world \<Rightarrow> (announcement list) async" where
  "fetchAnnouncements w =
     try_catch (fetchAnnouncements_try w) (\<lambda>e s. (Inr [], console_error e s))"

subsection \<open>notifyWebhooks\<close>

definition getAnnouncementUrl :: "js_string \<Rightarrow> js_string \<Rightarrow> error + js_string" where
  "getAnnouncementUrl t c =
     (case encodeURIComponent t of
        Inl e \<Rightarrow> Inl e
      | Inr encodedTitle \<Rightarrow>
          Inr (str ''https://www.binance.com/zh-CN/support/announcement/'' @ encodedTitle
               @ str ''-'' @ c))"

text \<open>
  \<open>url.match(/([^\/]+)$/)\<close>: the longest run of characters other than \<open>/\<close> that ends
  the string; no match when that run is empty.
\<close>

definition match_last_segment :: "js_string \<Rightarrow> js_string option" where
  "match_last_segment u =
     (let m = rev (takeWhile (\<lambda>c. c \<noteq> 47) (rev u)) in if m = [] then None else Some m)"

definition extractAnnouncementCode :: "js_string \<Rightarrow> js_string" where
  "extractAnnouncementCode u = (case match_last_segment u of None \<Rightarrow> [] | Some m \<Rightarrow> m)"

definition headers_of :: "webhook \<Rightarrow> headers" where
  "headers_of h =
     [(str ''Content-Type'', str ''application/json'')]
     @ (if secret h \<noteq> [] then [(str ''X-Webhook-Secret'', secret h)] else [])"

text \<open>The body of the \<open>async\<close> arrow function given to \<open>webhooks.map\<close>.\<close>

definition deliver_try :: "world \<Rightarrow> payload \<Rightarrow> webhook \<Rightarrow> unit async" where
  "deliver_try w p h s =
     (let k = requests s;
          s' = s\<lparr>requests := k + 1,
                 trace := trace s @ [Webhook_POST (url h) (headers_of h) p]\<rparr>
      in case webhook_reply w k of
           PostRejected \<Rightarrow> (Inl NetworkError, s')
         | PostResponse ok \<Rightarrow> if \<not> ok then (Inl WebhookFailed, s') else (Inr (), s'))"

definition deliver :: "world \<Rightarrow> payload \<Rightarrow> webhook \<Rightarrow> unit async" where
  "deliver w p h = try_catch (deliver_try w p h) (\<lambda>e s. (Inr (), console_error e s))"

text \<open>
  \<open>this.webhooks.map(async ...)\<close> starts one delivery per subscriber, in the order of
  the array, and \<open>Promise.all\<close> waits for them. In the source every request is sent
  before the first reply is looked at; here each delivery runs to its end before the
  next one starts. The requests, their order and the outcome of each delivery are the
  same either way; only the place of the \<open>console.error\<close> events among the requests
  differs, and no property below reads it.
\<close>

fun deliver_all ::
  "world \<Rightarrow> payload \<Rightarrow> webhook list \<Rightarrow> monitor \<Rightarrow> (error + unit) list \<times> monitor" where
  "deliver_all w p [] s = ([], s)"
| "deliver_all w p (h # hs) s =
     (case deliver w p h s of
        (r, s') \<Rightarrow> (case deliver_all w p hs s' of (rs, s'') \<Rightarrow> (r # rs, s'')))"

text \<open>\<open>Promise.all\<close> rejects as soon as one of the promises does.\<close>

fun Promise_all :: "(error + 'a) list \<Rightarrow> error + 'a list" where
  "Promise_all [] = Inr []"
| "Promise_all (Inl e # rs) = Inl e"
| "Promise_all (Inr v # rs) =
     (case Promise_all rs of Inl e \<Rightarrow> Inl e | Inr vs \<Rightarrow> Inr (v # vs))"

definition notifyWebhooks :: "world \<Rightarrow> announcement \<Rightarrow> unit async" where
  "notifyWebhooks w a s =
     (let s0 = s\<lparr>trace := trace s @ [Called_notifyWebhooks a]\<rparr>
      in case getAnnouncementUrl (title a) (extractAnnouncementCode (code a)) of
           Inl e \<Rightarrow> (Inl e, s0)
         | Inr announcementUrl \<Rightarrow>
             (case Date_now w s0 of
                (t, s1) \<Rightarrow>
                  (let p = \<lparr>timestamp = t,
                            p_announcement =
                              \<lparr>p_title = title a, p_code = code a,
                               p_url = announcementUrl,
                               p_publishDate = publishDate a\<rparr>\<rparr>
                   in case deliver_all w p (webhooks s1) s1 of
                        (notifications, s2) \<Rightarrow>
                          (case Promise_all notifications of
                             Inl e \<Rightarrow> (Inl e, s2)
                           | Inr _ \<Rightarrow> (Inr (), s2)))))"

subsection \<open>start and stop\<close>

definition start :: "world \<Rightarrow> unit async" where
  "start w s =
     (if isMonitoring s then (Inr (), s)
      else (case Date_now w (put_isMonitoring True (s\<lparr>isMonitoring := True\<rparr>)) of
              (t, s') \<Rightarrow> (Inr (), setAlarm (t + pollingInterval s') s')))"

definition stop :: "unit async" where
  "stop s = (Inr (), deleteAlarm (put_isMonitoring False (s\<lparr>isMonitoring := False\<rparr>)))"

subsection \<open>alarm\<close>

definition marker :: js_string where
  "marker = str ''Binance Will List''"

text \<open>
  The \<open>for ... of\<close> loop of \<open>alarm\<close>, with its \<open>break\<close>. It is entered only where
  \<open>this.lastAnnouncementId\<close> is not null, and reads the field at every step.
\<close>

fun walk :: "world \<Rightarrow> announcement list \<Rightarrow> unit async" where
  "walk w [] s = (Inr (), s)"
| "walk w (a # as) s =
     (if Some (id_num a) = lastAnnouncementId s then (Inr (), s)
      else if includes_str (title a) marker then
        (case notifyWebhooks w a s of
           (Inl e, s') \<Rightarrow> (Inl e, s')
         | (Inr _, s') \<Rightarrow> walk w as s')
      else walk w as s)"

definition rearm :: "world \<Rightarrow> unit async" where
  "rearm w s =
     (if isMonitoring s then
        (case Date_now w s of (t, s') \<Rightarrow> (Inr (), setAlarm (t + pollingInterval s') s'))
      else (Inr (), s))"

text \<open>The \<open>try\<close> block of \<open>alarm\<close>.\<close>

definition alarm_try :: "world \<Rightarrow> unit async" where
  "alarm_try w s =
     (case fetchAnnouncements w s of
        (Inl e, s1) \<Rightarrow> (Inl e, s1)
      | (Inr announcements, s1) \<Rightarrow>
          if length announcements = 0 then rearm w s1
          else
            (let latestId = id_num (announcements ! 0)
             in case lastAnnouncementId s1 of
                  None \<Rightarrow>
                    (Inr (), put_lastAnnouncementId latestId
                               (s1\<lparr>lastAnnouncementId := Some latestId\<rparr>))
                | Some lastId \<Rightarrow>
                    if latestId \<noteq> lastId then
                      (case walk w announcements s1 of
                         (Inl e, s2) \<Rightarrow> (Inl e, s2)
                       | (Inr _, s2) \<Rightarrow>
                           (Inr (), put_lastAnnouncementId latestId
                                      (s2\<lparr>lastAnnouncementId := Some latestId\<rparr>)))
                    else (Inr (), s1)))"

definition alarm :: "world \<Rightarrow> unit async" where
  "alarm w =
     try_finally
       (try_catch (alarm_try w) (\<lambda>e s. (Inr (), console_error e s)))
       (rearm w)"

text \<open>A run of wake-ups, each in its own world.\<close>

fun alarms :: "world list \<Rightarrow> monitor \<Rightarrow> monitor" where
  "alarms [] s = s"
| "alarms (w # ws) s = alarms ws (snd (alarm w s))"

subsection \<open>Reading a trace\<close>

fun notified :: "event list \<Rightarrow> announcement list" where
  "notified [] = []"
| "notified (Called_notifyWebhooks a # es) = a # notified es"
| "notified (_ # es) = notified es"

fun posted :: "event list \<Rightarrow> (js_string \<times> headers \<times> payload) list" where
  "posted [] = []"
| "posted (Webhook_POST u hs p # es) = (u, hs, p) # posted es"
| "posted (_ # es) = posted es"

fun alarms_set :: "event list \<Rightarrow> int list" where
  "alarms_set [] = []"
| "alarms_set (SetAlarm t # es) = t # alarms_set es"
| "alarms_set (_ # es) = alarms_set es"

fun logged :: "event list \<Rightarrow> error list" where
  "logged [] = []"
| "logged (Console_error e # es) = e # logged es"
| "logged (_ # es) = logged es"

text \<open>
  How a delivery ends, read off the reply to its request: a transport error and a
  response that is not OK are the two failures, and the \<open>catch\<close> of the delivery logs
  each with \<open>console.error\<close> once the reply is there.
\<close>

fun delivery_failure :: "post_outcome \<Rightarrow> error option" where
  "delivery_failure PostRejected = Some NetworkError"
| "delivery_failure (PostResponse ok) = (if ok then None else Some WebhookFailed)"

text \<open>The snapshot a cycle works on: what \<open>fetchAnnouncements\<close> resolves with.\<close>

definition snapshot :: "world \<Rightarrow> announcement list" where
  "snapshot w =
     (case feed w of
        Response True (Json d) \<Rightarrow> or_empty (optional_catalogs d)
      | _ \<Rightarrow> [])"

text \<open>
  The words of the specification: an entry is a listing when its title contains the
  marker; the entries newer than \<open>lastId\<close> are those before its first occurrence, in
  the order of the walk.
\<close>

definition is_listing :: "announcement \<Rightarrow> bool" where
  "is_listing a = includes_str (title a) marker"

definition listings :: "announcement list \<Rightarrow> announcement list" where
  "listings S = filter is_listing S"

definition newer_than :: "int \<Rightarrow> announcement list \<Rightarrow> announcement list" where
  "newer_than lastId S = takeWhile (\<lambda>a. id_num a \<noteq> lastId) S"

subsection \<open>Concrete scenarios\<close>

text \<open>
  The inputs of the examples below: an entry with a given id and title, a feed that
  answers with a given list, a world around it with a clock that advances by a second
  at each reading, and a monitor with given subscribers, marker and flag over an empty
  storage.
\<close>

definition entry :: "int \<Rightarrow> js_string \<Rightarrow> announcement" where
  "entry i t = \<lparr>id_num = i, title = t, code = [], publishDate = []\<rparr>"

definition feed_of :: "announcement list \<Rightarrow> feed_outcome" where
  "feed_of S = Response True (Json (Some \<lparr>data = Some \<lparr>catalogs = Some S\<rparr>\<rparr>))"

definition world_of :: "announcement list \<Rightarrow> (nat \<Rightarrow> post_outcome) \<Rightarrow> world" where
  "world_of S replies =
     \<lparr>feed = feed_of S, webhook_reply = replies, clock = (\<lambda>k. 1000 * int k)\<rparr>"

definition all_ok :: "nat \<Rightarrow> post_outcome" where
  "all_ok k = PostResponse True"

definition world_with :: "feed_outcome \<Rightarrow> world" where
  "world_with f = \<lparr>feed = f, webhook_reply = all_ok, clock = (\<lambda>k. 1000 * int k)\<rparr>"

definition all_fail :: "nat \<Rightarrow> post_outcome" where
  "all_fail k = (if even k then PostRejected else PostResponse False)"

definition empty_storage :: durable_storage where
  "empty_storage =
     \<lparr>stored_webhooks = None, stored_lastAnnouncementId = None,
      stored_isMonitoring = None, stored_watchList = None, armed = None\<rparr>"

definition fresh :: "webhook list \<Rightarrow> int option \<Rightarrow> bool \<Rightarrow> monitor" where
  "fresh hs lastId monitoring =
     \<lparr>webhooks = hs, watchList = [], lastAnnouncementId = lastId,
      isMonitoring = monitoring, pollingInterval = 3000, storage = empty_storage,
      ticks = 0, requests = 0, trace = []\<rparr>"

definition hook :: "string \<Rightarrow> webhook" where
  "hook name = \<lparr>secret = [], url = str name\<rparr>"

section \<open>Properties\<close>

subsection \<open>Strings\<close>

lemma uriUnescaped_not_surrogate:
  "uriUnescaped c \<Longrightarrow> \<not> isLeadingSurrogate c \<and> \<not> isTrailingSurrogate c"
  by (auto simp: uriUnescaped_def isLeadingSurrogate_def isTrailingSurrogate_def Let_def)

lemma leading_not_trailing: "isLeadingSurrogate c \<Longrightarrow> \<not> isTrailingSurrogate c"
  by (simp add: isLeadingSurrogate_def isTrailingSurrogate_def)

lemma encodeURIComponent_returns:
  "isWellFormed s \<Longrightarrow> \<exists>r. encodeURIComponent s = Inr r"
proof (induction s rule: encodeURIComponent.induct)
  case 1
  show ?case by simp
next
  case (2 c)
  then show ?case by simp
next
  case (3 c d ds)
  show ?case
  proof (cases "uriUnescaped c")
    case True
    with 3 uriUnescaped_not_surrogate [of c] show ?thesis by (auto split: sum.splits)
  next
    case False
    show ?thesis
    proof (cases "isLeadingSurrogate c")
      case True
      with False 3 leading_not_trailing [of c] show ?thesis by (auto split: sum.splits)
    next
      case nl: False
      with False 3 show ?thesis by (auto split: sum.splits)
    qed
  qed
qed

lemma encodeURIComponent_throws:
  "\<not> isWellFormed s \<Longrightarrow> encodeURIComponent s = Inl URIError"
proof (induction s rule: encodeURIComponent.induct)
  case 1
  then show ?case by simp
next
  case (2 c)
  then show ?case using uriUnescaped_not_surrogate [of c] by auto
next
  case (3 c d ds)
  show ?case
  proof (cases "uriUnescaped c")
    case True
    with 3 uriUnescaped_not_surrogate [of c] show ?thesis by (auto split: sum.splits)
  next
    case False
    show ?thesis
    proof (cases "isLeadingSurrogate c")
      case True
      with False 3 leading_not_trailing [of c] show ?thesis by (auto split: sum.splits)
    next
      case nl: False
      show ?thesis
      proof (cases "isTrailingSurrogate c")
        case True
        with False nl show ?thesis by simp
      next
        case nt: False
        with False nl 3 show ?thesis by (auto split: sum.splits)
      qed
    qed
  qed
qed

lemma includes_str_sublist: "includes_str s t \<longleftrightarrow> sublist t s"
  by (induction s) (auto simp: sublist_Cons_right)

lemma includes_str_append: "includes_str (m @ x) m"
  by (simp add: includes_str_sublist)

lemma str_not_surrogate:
  "\<not> isLeadingSurrogate (of_nat (of_char c)) \<and> \<not> isTrailingSurrogate (of_nat (of_char c))"
proof -
  have small: "(of_char c :: nat) < 256" by (rule nat_of_char_less_256)
  hence "(of_char c :: nat) < 65536" by linarith
  hence "unat (of_nat (of_char c) :: code_unit) = of_char c"
    by (simp add: unat_of_nat)
  with small have "unat (of_nat (of_char c) :: code_unit) < 256" by simp
  thus ?thesis by (simp add: isLeadingSurrogate_def isTrailingSurrogate_def)
qed

lemma isWellFormed_append_str:
  "isWellFormed (str cs @ s) = isWellFormed s"
proof (induction cs)
  case Nil
  show ?case by (simp add: str_def)
next
  case (Cons c cs)
  then show ?case using str_not_surrogate [of c]
    by (cases "str cs @ s") (auto simp: str_def)
qed

lemma marker_nonempty: "marker \<noteq> []"
  by (simp add: marker_def str_def)

lemma notified_append [simp]: "notified (xs @ ys) = notified xs @ notified ys"
  by (induction xs rule: notified.induct) simp_all

lemma posted_append [simp]: "posted (xs @ ys) = posted xs @ posted ys"
  by (induction xs rule: posted.induct) simp_all

lemma alarms_set_append [simp]: "alarms_set (xs @ ys) = alarms_set xs @ alarms_set ys"
  by (induction xs rule: alarms_set.induct) simp_all

lemma deliver_effect:
  "\<exists>es. deliver w p h s =
          (Inr (), s\<lparr>requests := requests s + 1,
                     trace := trace s @ Webhook_POST (url h) (headers_of h) p # es\<rparr>)
        \<and> notified es = [] \<and> posted es = [] \<and> alarms_set es = []"
proof (cases "webhook_reply w (requests s)")
  case PostRejected
  then show ?thesis
    by (intro exI [of _ "[Console_error NetworkError]"])
       (simp add: deliver_def deliver_try_def try_catch_def console_error_def)
next
  case (PostResponse ok)
  then show ?thesis
    by (cases ok)
       (auto simp: deliver_def deliver_try_def try_catch_def console_error_def
             intro: exI [of _ "[]"] exI [of _ "[Console_error WebhookFailed]"])
qed

lemma deliver_all_effect:
  "\<exists>es. deliver_all w p hs s =
          (replicate (length hs) (Inr ()),
           s\<lparr>requests := requests s + length hs, trace := trace s @ es\<rparr>)
        \<and> posted es = map (\<lambda>h. (url h, headers_of h, p)) hs
        \<and> notified es = [] \<and> alarms_set es = []"
proof (induction hs arbitrary: s)
  case Nil
  show ?case by (intro exI [of _ "[]"]) simp
next
  case (Cons h hs)
  obtain e1 where e1: "deliver w p h s =
          (Inr (), s\<lparr>requests := requests s + 1,
                     trace := trace s @ Webhook_POST (url h) (headers_of h) p # e1\<rparr>)"
    "notified e1 = []" "posted e1 = []" "alarms_set e1 = []"
    using deliver_effect by blast
  let ?s1 = "s\<lparr>requests := requests s + 1,
                     trace := trace s @ Webhook_POST (url h) (headers_of h) p # e1\<rparr>"
  obtain e2 where e2: "deliver_all w p hs ?s1 =
          (replicate (length hs) (Inr ()),
           ?s1\<lparr>requests := requests ?s1 + length hs, trace := trace ?s1 @ e2\<rparr>)"
    "posted e2 = map (\<lambda>h. (url h, headers_of h, p)) hs"
    "notified e2 = []" "alarms_set e2 = []"
    using Cons.IH [of ?s1] by blast
  have "deliver_all w p (h # hs) s =
          (replicate (length (h # hs)) (Inr ()),
           s\<lparr>requests := requests s + length (h # hs),
             trace := trace s @ (Webhook_POST (url h) (headers_of h) p # e1 @ e2)\<rparr>)"
    using e1(1) e2(1) by simp
  moreover have "posted (Webhook_POST (url h) (headers_of h) p # e1 @ e2) =
      map (\<lambda>h. (url h, headers_of h, p)) (h # hs)"
    using e1 e2 by simp
  moreover have "notified (Webhook_POST (url h) (headers_of h) p # e1 @ e2) = []"
    "alarms_set (Webhook_POST (url h) (headers_of h) p # e1 @ e2) = []"
    using e1 e2 by simp_all
  ultimately show ?case by blast
qed

lemma Promise_all_replicate: "Promise_all (replicate n (Inr v)) = Inr (replicate n v)"
  by (induction n) simp_all

lemma getAnnouncementUrl_returns:
  "isWellFormed t \<Longrightarrow> \<exists>u. getAnnouncementUrl t c = Inr u"
  using encodeURIComponent_returns [of t] by (auto simp: getAnnouncementUrl_def)

lemma getAnnouncementUrl_throws:
  "\<not> isWellFormed t \<Longrightarrow> getAnnouncementUrl t c = Inl URIError"
  by (simp add: getAnnouncementUrl_def encodeURIComponent_throws)

lemma notifyWebhooks_throws:
  "\<not> isWellFormed (title a) \<Longrightarrow>
   notifyWebhooks w a s = (Inl URIError, s\<lparr>trace := trace s @ [Called_notifyWebhooks a]\<rparr>)"
  by (simp add: notifyWebhooks_def getAnnouncementUrl_throws)

lemma notifyWebhooks_returns:
  assumes "getAnnouncementUrl (title a) (extractAnnouncementCode (code a)) = Inr u"
  shows "\<exists>es. notifyWebhooks w a s =
            (Inr (), s\<lparr>ticks := ticks s + 1,
                       requests := requests s + length (webhooks s),
                       trace := trace s @ Called_notifyWebhooks a # es\<rparr>)
          \<and> posted es =
              map (\<lambda>h. (url h, headers_of h,
                         \<lparr>timestamp = clock w (ticks s),
                          p_announcement =
                            \<lparr>p_title = title a, p_code = code a, p_url = u,
                             p_publishDate = publishDate a\<rparr>\<rparr>))
                  (webhooks s)
          \<and> notified es = [] \<and> alarms_set es = []"
proof -
  let ?p = "\<lparr>timestamp = clock w (ticks s),
                          p_announcement =
                            \<lparr>p_title = title a, p_code = code a, p_url = u,
                             p_publishDate = publishDate a\<rparr>\<rparr>"
  let ?s1 = "s\<lparr>trace := trace s @ [Called_notifyWebhooks a], ticks := ticks s + 1\<rparr>"
  obtain es where es: "deliver_all w ?p (webhooks s) ?s1 =
          (replicate (length (webhooks s)) (Inr ()),
           ?s1\<lparr>requests := requests ?s1 + length (webhooks s), trace := trace ?s1 @ es\<rparr>)"
     "posted es = map (\<lambda>h. (url h, headers_of h, ?p)) (webhooks s)"
     "notified es = []" "alarms_set es = []"
    using deliver_all_effect [of w ?p "webhooks s" ?s1] by blast
  have "notifyWebhooks w a s =
            (Inr (), s\<lparr>ticks := ticks s + 1,
                       requests := requests s + length (webhooks s),
                       trace := trace s @ Called_notifyWebhooks a # es\<rparr>)"
    using assms es(1)
    by (simp add: notifyWebhooks_def Date_now_def Promise_all_replicate)
  with es(2-4) show ?thesis by blast
qed

lemma fetchAnnouncements_effect:
  "\<exists>es. fetchAnnouncements w s = (Inr (snapshot w), s\<lparr>trace := trace s @ es\<rparr>)
        \<and> notified es = [] \<and> posted es = [] \<and> alarms_set es = []"
proof (cases "feed w")
  case FetchRejected
  then show ?thesis
    by (intro exI [of _ "[Feed_GET (BINANCE_API @ str ''?'' @ params),
                          Console_error NetworkError]"])
       (simp add: fetchAnnouncements_def fetchAnnouncements_try_def try_catch_def
                  console_error_def snapshot_def)
next
  case (Response ok body)
  show ?thesis
  proof (cases ok)
    case False
    with Response show ?thesis
      by (intro exI [of _ "[Feed_GET (BINANCE_API @ str ''?'' @ params),
                            Console_error FailedToFetch]"])
         (simp add: fetchAnnouncements_def fetchAnnouncements_try_def try_catch_def
                    console_error_def snapshot_def)
  next
    case True
    show ?thesis
    proof (cases body)
      case JsonRejected
      with Response True show ?thesis
        by (intro exI [of _ "[Feed_GET (BINANCE_API @ str ''?'' @ params),
                              Console_error SyntaxError]"])
           (simp add: fetchAnnouncements_def fetchAnnouncements_try_def try_catch_def
                      console_error_def snapshot_def)
    next
      case (Json d)
      with Response True show ?thesis
        by (intro exI [of _ "[Feed_GET (BINANCE_API @ str ''?'' @ params)]"])
           (simp add: fetchAnnouncements_def fetchAnnouncements_try_def try_catch_def
                      snapshot_def)
    qed
  qed
qed

lemma rearm_eq:
  "rearm w s =
     (Inr (),
      if isMonitoring s then
        s\<lparr>storage := (storage s)\<lparr>armed := Some (clock w (ticks s) + pollingInterval s)\<rparr>,
          ticks := ticks s + 1,
          trace := trace s @ [SetAlarm (clock w (ticks s) + pollingInterval s)]\<rparr>
      else s)"
  by (simp add: rearm_def Date_now_def setAlarm_def)

lemma alarm_unfold:
  "alarm w s =
     (Inr (),
      snd (rearm w (case alarm_try w s of
                      (Inl e, s1) \<Rightarrow> console_error e s1
                    | (Inr _, s1) \<Rightarrow> s1)))"
  by (simp add: alarm_def try_finally_def try_catch_def rearm_eq
           split: prod.splits sum.splits)

lemma walk_effect:
  assumes "lastAnnouncementId s = Some lastId"
  shows "\<exists>r n m es.
           walk w as s =
             (r, s\<lparr>ticks := ticks s + n, requests := requests s + m,
                   trace := trace s @ es\<rparr>)
         \<and> alarms_set es = []
         \<and> ((\<forall>a \<in> set (butlast (listings (newer_than lastId as))).
                isWellFormed (title a))
              \<longrightarrow> notified es = listings (newer_than lastId as))
         \<and> (r = Inr () \<longrightarrow>
              notified es = listings (newer_than lastId as))
         \<and> ((\<forall>a \<in> set (listings (newer_than lastId as)). isWellFormed (title a))
              \<longrightarrow> r = Inr ())"
  using assms
proof (induction as arbitrary: s)
  case Nil
  have "walk w [] s = (Inr (), s\<lparr>ticks := ticks s + 0, requests := requests s + 0,
                               trace := trace s @ []\<rparr>)"
    by simp
  then show ?case
    by (intro exI [of _ "Inr ()"] exI [of _ "0::nat"] exI [of _ "[]"])
       (auto simp: listings_def newer_than_def)
next
  case (Cons a as)
  let ?rest = "listings (newer_than lastId as)"
  show ?case
  proof (cases "id_num a = lastId")
    case True
    with Cons.prems have "walk w (a # as) s =
        (Inr (), s\<lparr>ticks := ticks s + 0, requests := requests s + 0,
                   trace := trace s @ []\<rparr>)"
      by simp
    with True show ?thesis
      by (intro exI [of _ "Inr ()"] exI [of _ "0::nat"] exI [of _ "[]"])
         (auto simp: listings_def newer_than_def)
  next
    case differs: False
    show ?thesis
    proof (cases "is_listing a")
      case False
      from Cons.IH [OF Cons.prems] obtain r n m es where
        IH: "walk w as s = (r, s\<lparr>ticks := ticks s + n, requests := requests s + m,
                                 trace := trace s @ es\<rparr>)"
          "alarms_set es = []"
          "(\<forall>a \<in> set (butlast ?rest). isWellFormed (title a)) \<longrightarrow> notified es = ?rest"
          "r = Inr () \<longrightarrow> notified es = ?rest"
          "(\<forall>a \<in> set (listings (newer_than lastId as)). isWellFormed (title a))
             \<longrightarrow> r = Inr ()"
        by blast
      have "walk w (a # as) s = walk w as s"
        using differs False Cons.prems by (simp add: is_listing_def)
      with IH differs False show ?thesis
        by (intro exI [of _ r] exI [of _ n] exI [of _ m] exI [of _ es])
           (auto simp: listings_def newer_than_def)
    next
      case listing: True
      show ?thesis
      proof (cases "isWellFormed (title a)")
        case False
        have "walk w (a # as) s =
            (Inl URIError, s\<lparr>ticks := ticks s + 0, requests := requests s + 0,
                             trace := trace s @ [Called_notifyWebhooks a]\<rparr>)"
          using differs listing Cons.prems notifyWebhooks_throws [OF False, of w s]
          by (simp add: is_listing_def)
        with differs listing False show ?thesis
          by (intro exI [of _ "Inl URIError"] exI [of _ "0::nat"]
                    exI [of _ "[Called_notifyWebhooks a]"])
             (auto simp: listings_def newer_than_def)
      next
        case True
        then obtain u where
          u: "getAnnouncementUrl (title a) (extractAnnouncementCode (code a)) = Inr u"
          using getAnnouncementUrl_returns by blast
        from notifyWebhooks_returns [OF u, of w s] obtain e1 where
          e1: "notifyWebhooks w a s =
                 (Inr (), s\<lparr>ticks := ticks s + 1,
                            requests := requests s + length (webhooks s),
                            trace := trace s @ Called_notifyWebhooks a # e1\<rparr>)"
            "notified e1 = []" "alarms_set e1 = []"
          by blast
        let ?s1 = "s\<lparr>ticks := ticks s + 1,
                            requests := requests s + length (webhooks s),
                            trace := trace s @ Called_notifyWebhooks a # e1\<rparr>"
        have "lastAnnouncementId ?s1 = Some lastId" using Cons.prems by simp
        from Cons.IH [OF this] obtain r n m es where
          IH: "walk w as ?s1 = (r, ?s1\<lparr>ticks := ticks ?s1 + n, requests := requests ?s1 + m,
                                   trace := trace ?s1 @ es\<rparr>)"
            "alarms_set es = []"
          "(\<forall>a \<in> set (butlast ?rest). isWellFormed (title a)) \<longrightarrow> notified es = ?rest"
            "r = Inr () \<longrightarrow> notified es = ?rest"
            "(\<forall>a \<in> set (listings (newer_than lastId as)). isWellFormed (title a))
             \<longrightarrow> r = Inr ()"
          by blast
        have "walk w (a # as) s = walk w as ?s1"
          using differs listing Cons.prems e1(1) by (simp add: is_listing_def)
        with IH(1) have "walk w (a # as) s =
            (r, s\<lparr>ticks := ticks s + (1 + n),
                  requests := requests s + (length (webhooks s) + m),
                  trace := trace s @ (Called_notifyWebhooks a # e1 @ es)\<rparr>)"
          by simp
        with IH(2-5) e1(2,3) differs listing True show ?thesis
          by (intro exI [of _ r] exI [of _ "1 + n"] exI [of _ "length (webhooks s) + m"]
                    exI [of _ "Called_notifyWebhooks a # e1 @ es"])
             (auto simp: listings_def newer_than_def)
      qed
    qed
  qed
qed

subsection \<open>The four shapes of a cycle\<close>

lemma alarm_empty:
  assumes "snapshot w = []"
  shows "\<exists>es. snd (alarm w s) = snd (rearm w (snd (rearm w (s\<lparr>trace := trace s @ es\<rparr>))))
             \<and> notified es = [] \<and> posted es = [] \<and> alarms_set es = []"
proof -
  obtain es where es: "fetchAnnouncements w s = (Inr [], s\<lparr>trace := trace s @ es\<rparr>)"
    "notified es = []" "posted es = []" "alarms_set es = []"
    using fetchAnnouncements_effect [of w s] assms by auto
  have "snd (alarm w s) = snd (rearm w (snd (rearm w (s\<lparr>trace := trace s @ es\<rparr>))))"
    by (simp add: alarm_unfold alarm_try_def es(1) rearm_eq)
  with es(2-4) show ?thesis by blast
qed

lemma alarm_first:
  assumes "snapshot w \<noteq> []" "lastAnnouncementId s = None"
  shows "\<exists>es. snd (alarm w s) =
               snd (rearm w (s\<lparr>lastAnnouncementId := Some (id_num (snapshot w ! 0)),
                               storage := (storage s)
                                 \<lparr>stored_lastAnnouncementId := Some (id_num (snapshot w ! 0))\<rparr>,
                               trace := trace s @ es\<rparr>))
             \<and> notified es = [] \<and> posted es = [] \<and> alarms_set es = []"
proof -
  obtain es where es: "fetchAnnouncements w s = (Inr (snapshot w), s\<lparr>trace := trace s @ es\<rparr>)"
    "notified es = []" "posted es = []" "alarms_set es = []"
    using fetchAnnouncements_effect [of w s] by auto
  let ?es = "es @ [Put_lastAnnouncementId (id_num (snapshot w ! 0))]"
  have "snd (alarm w s) =
               snd (rearm w (s\<lparr>lastAnnouncementId := Some (id_num (snapshot w ! 0)),
                               storage := (storage s)
                                 \<lparr>stored_lastAnnouncementId := Some (id_num (snapshot w ! 0))\<rparr>,
                               trace := trace s @ ?es\<rparr>))"
    using assms
    by (simp add: alarm_unfold alarm_try_def es(1) Let_def put_lastAnnouncementId_def)
  moreover have "notified ?es = []" "posted ?es = []" "alarms_set ?es = []"
    using es(2-4) by simp_all
  ultimately show ?thesis by blast
qed

lemma alarm_same:
  assumes "snapshot w \<noteq> []" "lastAnnouncementId s = Some (id_num (snapshot w ! 0))"
  shows "\<exists>es. snd (alarm w s) = snd (rearm w (s\<lparr>trace := trace s @ es\<rparr>))
             \<and> notified es = [] \<and> posted es = [] \<and> alarms_set es = []"
proof -
  obtain es where es: "fetchAnnouncements w s = (Inr (snapshot w), s\<lparr>trace := trace s @ es\<rparr>)"
    "notified es = []" "posted es = []" "alarms_set es = []"
    using fetchAnnouncements_effect [of w s] by auto
  have "snd (alarm w s) = snd (rearm w (s\<lparr>trace := trace s @ es\<rparr>))"
    using assms by (simp add: alarm_unfold alarm_try_def es(1) Let_def)
  with es(2-4) show ?thesis by blast
qed

lemma alarm_walk:
  assumes "snapshot w \<noteq> []" "lastAnnouncementId s = Some lastId"
    "lastId \<noteq> id_num (snapshot w ! 0)"
  shows "\<exists>ok n m es.
           snd (alarm w s) =
             snd (rearm w
               (if ok then
                  s\<lparr>ticks := ticks s + n, requests := requests s + m,
                    lastAnnouncementId := Some (id_num (snapshot w ! 0)),
                    storage := (storage s)
                      \<lparr>stored_lastAnnouncementId := Some (id_num (snapshot w ! 0))\<rparr>,
                    trace := trace s @ es\<rparr>
                else
                  s\<lparr>ticks := ticks s + n, requests := requests s + m,
                    trace := trace s @ es\<rparr>))
         \<and> alarms_set es = []
         \<and> ((\<forall>a \<in> set (butlast (listings (newer_than lastId (snapshot w)))).
                isWellFormed (title a))
              \<longrightarrow> notified es = listings (newer_than lastId (snapshot w)))
         \<and> (ok \<longrightarrow> notified es = listings (newer_than lastId (snapshot w)))
         \<and> ((\<forall>a \<in> set (listings (newer_than lastId (snapshot w))). isWellFormed (title a))
              \<longrightarrow> ok)"
proof -
  let ?new = "id_num (snapshot w ! 0)"
  obtain e0 where e0: "fetchAnnouncements w s = (Inr (snapshot w), s\<lparr>trace := trace s @ e0\<rparr>)"
    "notified e0 = []" "posted e0 = []" "alarms_set e0 = []"
    using fetchAnnouncements_effect [of w s] by auto
  let ?s1 = "s\<lparr>trace := trace s @ e0\<rparr>"
  have "lastAnnouncementId ?s1 = Some lastId" using assms(2) by simp
  from walk_effect [OF this, of w "snapshot w"] obtain r n m e1 where
    wk: "walk w (snapshot w) ?s1 =
           (r, ?s1\<lparr>ticks := ticks ?s1 + n, requests := requests ?s1 + m,
                   trace := trace ?s1 @ e1\<rparr>)"
      "alarms_set e1 = []"
      "(\<forall>a \<in> set (butlast (listings (newer_than lastId (snapshot w)))).
           isWellFormed (title a))
         \<longrightarrow> notified e1 = listings (newer_than lastId (snapshot w))"
      "r = Inr () \<longrightarrow> notified e1 = listings (newer_than lastId (snapshot w))"
      "(\<forall>a \<in> set (listings (newer_than lastId (snapshot w))). isWellFormed (title a))
         \<longrightarrow> r = Inr ()"
    by blast
  show ?thesis
  proof (cases r)
    case (Inl e)
    let ?es = "e0 @ e1 @ [Console_error e]"
    have "snd (alarm w s) =
            snd (rearm w (s\<lparr>ticks := ticks s + n, requests := requests s + m,
                            trace := trace s @ ?es\<rparr>))"
      using assms wk(1) Inl
      by (simp add: alarm_unfold alarm_try_def e0(1) Let_def console_error_def)
    moreover have "alarms_set ?es = []" "notified ?es = notified e1"
      using e0 wk(2) by simp_all
    ultimately show ?thesis using wk(3-5) Inl
      by (intro exI [of _ False] exI [of _ n] exI [of _ m] exI [of _ ?es]) simp
  next
    case (Inr u)
    let ?es = "e0 @ e1 @ [Put_lastAnnouncementId ?new]"
    have "snd (alarm w s) =
            snd (rearm w (s\<lparr>ticks := ticks s + n, requests := requests s + m,
                            lastAnnouncementId := Some ?new,
                            storage := (storage s)\<lparr>stored_lastAnnouncementId := Some ?new\<rparr>,
                            trace := trace s @ ?es\<rparr>))"
      using assms wk(1) Inr
      by (simp add: alarm_unfold alarm_try_def e0(1) Let_def put_lastAnnouncementId_def)
    moreover have "alarms_set ?es = []" "notified ?es = notified e1"
      using e0 wk(2) by simp_all
    ultimately show ?thesis using wk(3-5) Inr
      by (intro exI [of _ True] exI [of _ n] exI [of _ m] exI [of _ ?es]) simp
  qed
qed

subsection \<open>Facts about the scenarios and about empty snapshots\<close>

lemma snapshot_world_of [simp]: "snapshot (world_of S r) = S"
  by (simp add: snapshot_def world_of_def feed_of_def optional_catalogs_def or_empty_def)

lemma is_listing_marker [simp]: "is_listing (entry i (marker @ x))"
  by (simp add: is_listing_def entry_def includes_str_append)

lemma is_listing_empty [simp]: "\<not> is_listing (entry i [])"
  by (simp add: is_listing_def entry_def marker_nonempty)

lemma isWellFormed_marker [simp]: "isWellFormed (marker @ x) = isWellFormed x"
  by (simp add: marker_def isWellFormed_append_str)

lemma isLeadingSurrogate_D800 [simp]: "isLeadingSurrogate 0xD800"
  by (simp add: isLeadingSurrogate_def)

lemma alarm_empty_fields:
  assumes "snapshot w = []"
  shows "lastAnnouncementId (snd (alarm w s)) = lastAnnouncementId s"
    "notified (trace (snd (alarm w s))) = notified (trace s)"
    "posted (trace (snd (alarm w s))) = posted (trace s)"
    "webhooks (snd (alarm w s)) = webhooks s"
    "watchList (snd (alarm w s)) = watchList s"
    "isMonitoring (snd (alarm w s)) = isMonitoring s"
    "pollingInterval (snd (alarm w s)) = pollingInterval s"
    "stored_webhooks (storage (snd (alarm w s))) = stored_webhooks (storage s)"
    "stored_watchList (storage (snd (alarm w s))) = stored_watchList (storage s)"
    "stored_isMonitoring (storage (snd (alarm w s))) = stored_isMonitoring (storage s)"
    "stored_lastAnnouncementId (storage (snd (alarm w s))) =
       stored_lastAnnouncementId (storage s)"
proof -
  obtain es where "snd (alarm w s) = snd (rearm w (snd (rearm w (s\<lparr>trace := trace s @ es\<rparr>))))"
     "notified es = []" "posted es = []" "alarms_set es = []"
    using alarm_empty [OF assms] by blast
  then show "lastAnnouncementId (snd (alarm w s)) = lastAnnouncementId s"
    "notified (trace (snd (alarm w s))) = notified (trace s)"
    "posted (trace (snd (alarm w s))) = posted (trace s)"
    "webhooks (snd (alarm w s)) = webhooks s"
    "watchList (snd (alarm w s)) = watchList s"
    "isMonitoring (snd (alarm w s)) = isMonitoring s"
    "pollingInterval (snd (alarm w s)) = pollingInterval s"
    "stored_webhooks (storage (snd (alarm w s))) = stored_webhooks (storage s)"
    "stored_watchList (storage (snd (alarm w s))) = stored_watchList (storage s)"
    "stored_isMonitoring (storage (snd (alarm w s))) = stored_isMonitoring (storage s)"
    "stored_lastAnnouncementId (storage (snd (alarm w s))) =
       stored_lastAnnouncementId (storage s)"
    by (simp_all add: rearm_eq)
qed

lemma alarms_empty_fields:
  assumes "\<forall>w \<in> set ws. snapshot w = []"
  shows "lastAnnouncementId (alarms ws s) = lastAnnouncementId s
       \<and> notified (trace (alarms ws s)) = notified (trace s)
       \<and> posted (trace (alarms ws s)) = posted (trace s)"
  using assms
  by (induction ws arbitrary: s) (simp_all add: alarm_empty_fields)

lemma is_listing_marker_self [simp]: "is_listing (entry i marker)"
  using is_listing_marker [of i "[]"] by simp

lemma isWellFormed_marker_self [simp]: "isWellFormed marker"
  using isWellFormed_marker [of "[]"] by simp

lemma entry_sel [simp]:
  "id_num (entry i t) = i" "title (entry i t) = t"
  "code (entry i t) = []" "publishDate (entry i t) = []"
  by (simp_all add: entry_def)

lemma world_of_sel [simp]:
  "feed (world_of S r) = feed_of S" "webhook_reply (world_of S r) = r"
  "clock (world_of S r) k = 1000 * int k"
  by (simp_all add: world_of_def)

lemma world_with_sel [simp]: "feed (world_with f) = f"
  by (simp add: world_with_def)

lemma includes_str_self [simp]: "includes_str m m"
  by (simp add: includes_str_sublist)

lemmas cycle_defs =
  alarm_def alarm_try_def try_finally_def try_catch_def rearm_def Date_now_def
  setAlarm_def put_lastAnnouncementId_def console_error_def
  fetchAnnouncements_def fetchAnnouncements_try_def optional_catalogs_def or_empty_def
  feed_of_def fresh_def empty_storage_def Let_def
  includes_str_append marker_nonempty notifyWebhooks_throws

subsection \<open>Every cycle\<close>

lemma alarm_general:
  "\<exists>X n. snd (alarm w s) = snd (rearm w X)
     \<and> webhooks X = webhooks s \<and> watchList X = watchList s
     \<and> isMonitoring X = isMonitoring s \<and> pollingInterval X = pollingInterval s
     \<and> ticks X = ticks s + n
     \<and> (snapshot w = [] \<longrightarrow> n = (if isMonitoring s then 1 else 0))
     \<and> alarms_set (trace X) =
         alarms_set (trace s)
         @ (if snapshot w = [] \<and> isMonitoring s
            then [clock w (ticks s) + pollingInterval s] else [])
     \<and> (\<not> isMonitoring s \<longrightarrow> armed (storage X) = armed (storage s))
     \<and> (lastAnnouncementId X = lastAnnouncementId s
          \<and> stored_lastAnnouncementId (storage X) = stored_lastAnnouncementId (storage s)
        \<or> snapshot w \<noteq> []
          \<and> lastAnnouncementId X = Some (id_num (snapshot w ! 0))
          \<and> stored_lastAnnouncementId (storage X) = Some (id_num (snapshot w ! 0)))"
proof (cases "snapshot w = []")
  case True
  from alarm_empty [OF True, of s] obtain es where
    es: "snd (alarm w s) = snd (rearm w (snd (rearm w (s\<lparr>trace := trace s @ es\<rparr>))))"
      "alarms_set es = []"
    by blast
  show ?thesis
    by (intro exI [of _ "snd (rearm w (s\<lparr>trace := trace s @ es\<rparr>))"]
              exI [of _ "if isMonitoring s then 1 else 0"])
       (simp add: es True rearm_eq)
next
  case nonempty: False
  show ?thesis
  proof (cases "lastAnnouncementId s")
    case None
    from alarm_first [OF nonempty None] obtain es where
      es: "snd (alarm w s) =
               snd (rearm w (s\<lparr>lastAnnouncementId := Some (id_num (snapshot w ! 0)),
                               storage := (storage s)
                                 \<lparr>stored_lastAnnouncementId := Some (id_num (snapshot w ! 0))\<rparr>,
                               trace := trace s @ es\<rparr>))"
        "alarms_set es = []"
      by blast
    show ?thesis
      by (intro exI [of _ "s\<lparr>lastAnnouncementId := Some (id_num (snapshot w ! 0)),
                               storage := (storage s)
                                 \<lparr>stored_lastAnnouncementId := Some (id_num (snapshot w ! 0))\<rparr>,
                               trace := trace s @ es\<rparr>"] exI [of _ 0])
         (simp add: es nonempty)
  next
    case (Some lastId)
    show ?thesis
    proof (cases "lastId = id_num (snapshot w ! 0)")
      case True
      with Some have "lastAnnouncementId s = Some (id_num (snapshot w ! 0))" by simp
      from alarm_same [OF nonempty this] obtain es where
        es: "snd (alarm w s) = snd (rearm w (s\<lparr>trace := trace s @ es\<rparr>))"
          "alarms_set es = []"
        by blast
      show ?thesis
        by (intro exI [of _ "s\<lparr>trace := trace s @ es\<rparr>"] exI [of _ 0])
           (simp add: es nonempty)
    next
      case False
      from alarm_walk [OF nonempty Some False] obtain ok n m es where
        es: "snd (alarm w s) =
             snd (rearm w
               (if ok then
                  s\<lparr>ticks := ticks s + n, requests := requests s + m,
                    lastAnnouncementId := Some (id_num (snapshot w ! 0)),
                    storage := (storage s)
                      \<lparr>stored_lastAnnouncementId := Some (id_num (snapshot w ! 0))\<rparr>,
                    trace := trace s @ es\<rparr>
                else
                  s\<lparr>ticks := ticks s + n, requests := requests s + m,
                    trace := trace s @ es\<rparr>))"
          "alarms_set es = []"
        by blast
      show ?thesis
        by (intro exI [of _ "if ok then
                  s\<lparr>ticks := ticks s + n, requests := requests s + m,
                    lastAnnouncementId := Some (id_num (snapshot w ! 0)),
                    storage := (storage s)
                      \<lparr>stored_lastAnnouncementId := Some (id_num (snapshot w ! 0))\<rparr>,
                    trace := trace s @ es\<rparr>
                else
                  s\<lparr>ticks := ticks s + n, requests := requests s + m,
                    trace := trace s @ es\<rparr>"] exI [of _ n])
           (simp add: es nonempty)
    qed
  qed
qed

subsection \<open>A walk that meets no lone surrogate\<close>

lemma newer_than_head: "S \<noteq> [] \<Longrightarrow> id_num (S ! 0) = lastId \<Longrightarrow> newer_than lastId S = []"
  by (cases S) (simp_all add: newer_than_def)

lemma newer_than_absent: "lastId \<notin> id_num ` set S \<Longrightarrow> newer_than lastId S = S"
  by (auto simp: newer_than_def takeWhile_eq_all_conv)

lemma alarm_walk_wellformed:
  assumes "snapshot w \<noteq> []" "lastAnnouncementId s = Some lastId"
    "lastId \<noteq> id_num (snapshot w ! 0)"
    "\<forall>a \<in> set (listings (newer_than lastId (snapshot w))). isWellFormed (title a)"
  shows "notified (trace (snd (alarm w s))) =
           notified (trace s) @ listings (newer_than lastId (snapshot w))
       \<and> lastAnnouncementId (snd (alarm w s)) = Some (id_num (snapshot w ! 0))
       \<and> stored_lastAnnouncementId (storage (snd (alarm w s))) =
           Some (id_num (snapshot w ! 0))"
proof -
  from alarm_walk [OF assms(1-3)] obtain ok n m es where
    es: "snd (alarm w s) =
             snd (rearm w
               (if ok then
                  s\<lparr>ticks := ticks s + n, requests := requests s + m,
                    lastAnnouncementId := Some (id_num (snapshot w ! 0)),
                    storage := (storage s)
                      \<lparr>stored_lastAnnouncementId := Some (id_num (snapshot w ! 0))\<rparr>,
                    trace := trace s @ es\<rparr>
                else
                  s\<lparr>ticks := ticks s + n, requests := requests s + m,
                    trace := trace s @ es\<rparr>))"
      "ok \<longrightarrow> notified es = listings (newer_than lastId (snapshot w))"
      "(\<forall>a \<in> set (listings (newer_than lastId (snapshot w))). isWellFormed (title a))
         \<longrightarrow> ok"
    by blast
  from es(3) assms(4) have ok by blast
  with es(2) show ?thesis by (simp add: es(1) rearm_eq)
qed

lemma snapshot_replies [simp]: "snapshot (w\<lparr>webhook_reply := r\<rparr>) = snapshot w"
  by (simp add: snapshot_def)

lemma alarm_marker_step:
  assumes "lastAnnouncementId s = Some v"
  shows "lastAnnouncementId (snd (alarm w s)) = Some v
       \<or> snapshot w \<noteq> [] \<and> lastAnnouncementId (snd (alarm w s)) = Some (id_num (snapshot w ! 0))"
proof -
  obtain X n where X: "snd (alarm w s) = snd (rearm w X)"
    "lastAnnouncementId X = lastAnnouncementId s
          \<and> stored_lastAnnouncementId (storage X) = stored_lastAnnouncementId (storage s)
        \<or> snapshot w \<noteq> []
          \<and> lastAnnouncementId X = Some (id_num (snapshot w ! 0))
          \<and> stored_lastAnnouncementId (storage X) = Some (id_num (snapshot w ! 0))"
    using alarm_general [of w s] by blast
  have "lastAnnouncementId (snd (alarm w s)) = lastAnnouncementId X"
    by (simp add: X(1) rearm_eq)
  with X(2) assms show ?thesis by auto
qed

subsection \<open>The constructor\<close>

lemma constructor_fields:
  "lastAnnouncementId (constructor p w st) = or_null (stored_lastAnnouncementId st)"
  "notified (trace (constructor p w st)) = []"
  "posted (trace (constructor p w st)) = []"
  "isMonitoring (constructor p w st) = or_false (stored_isMonitoring st)"
  "pollingInterval (constructor p w st) = or_3000 p"
  "webhooks (constructor p w st) = or_empty (stored_webhooks st)"
  by (simp_all add: constructor_def Date_now_def setAlarm_def Let_def)

subsection \<open>What the notifier has logged when it returns\<close>

lemma logged_append [simp]: "logged (xs @ ys) = logged xs @ logged ys"
  by (induction xs rule: logged.induct) simp_all

lemma deliver_logged:
  "logged (trace (snd (deliver w p h s))) =
     logged (trace s)
     @ (case delivery_failure (webhook_reply w (requests s)) of None \<Rightarrow> [] | Some e \<Rightarrow> [e])"
  "requests (snd (deliver w p h s)) = Suc (requests s)"
  by (simp_all add: deliver_def deliver_try_def try_catch_def console_error_def Let_def
               split: post_outcome.splits)

lemma deliver_all_logged:
  "logged (trace (snd (deliver_all w p hs s))) =
     logged (trace s)
     @ List.map_filter (\<lambda>k. delivery_failure (webhook_reply w k))
         [requests s ..< requests s + length hs]"
proof (induction hs arbitrary: s)
  case Nil
  show ?case by (simp add: map_filter_simps)
next
  case (Cons h hs)
  have step: "snd (deliver_all w p (h # hs) s) = snd (deliver_all w p hs (snd (deliver w p h s)))"
    by (simp split: prod.splits)
  have range: "[requests s ..< requests s + length (h # hs)] =
      requests s # [Suc (requests s) ..< Suc (requests s) + length hs]"
  proof -
    have "requests s < requests s + length (h # hs)" by simp
    from upt_conv_Cons [OF this] show ?thesis by (simp del: upt_Suc)
  qed
  show ?case
    by (simp only: step range Cons.IH deliver_logged)
       (simp add: map_filter_simps split: option.splits)
qed

lemma notifyWebhooks_logged:
  assumes "isWellFormed (title a)"
  shows "logged (trace (snd (notifyWebhooks w a s))) =
     logged (trace s)
     @ List.map_filter (\<lambda>k. delivery_failure (webhook_reply w k))
         [requests s ..< requests s + length (webhooks s)]"
proof -
  from assms obtain u where
    u: "getAnnouncementUrl (title a) (extractAnnouncementCode (code a)) = Inr u"
    using getAnnouncementUrl_returns by blast
  let ?p = "\<lparr>timestamp = clock w (ticks s),
             p_announcement =
               \<lparr>p_title = title a, p_code = code a, p_url = u,
                p_publishDate = publishDate a\<rparr>\<rparr>"
  let ?s1 = "s\<lparr>trace := trace s @ [Called_notifyWebhooks a], ticks := ticks s + 1\<rparr>"
  have "snd (notifyWebhooks w a s) = snd (deliver_all w ?p (webhooks s) ?s1)"
    using u by (simp add: notifyWebhooks_def Date_now_def split: prod.splits sum.splits)
  then show ?thesis by (simp add: deliver_all_logged)
qed


text \<open>The \<open>try\<close> block of \<open>alarm\<close> does throw: here the notifier meets a lone surrogate.\<close>

lemma alarm_try_can_throw:
  "fst (alarm_try (world_of [entry 2 (marker @ [0xD800])] all_ok) (fresh [] (Some 1) True))
     = Inl URIError"
  by (simp add: cycle_defs)

section \<open>The claims\<close>

text \<open>
  C1, as amended. For every snapshot in which the stored \<open>lastAnnouncementId\<close> occurs,
  and in which no listing before its first occurrence, other than the last of them,
  has a title with a lone surrogate, one cycle calls the notifier for exactly the
  listings before that first occurrence, in the order of the walk, and for no other
  entry.

  As stated, without the condition on the titles, the claim fails: the notifier throws
  a URIError on such a title, the walk ends there, and the listings after it are not
  notified.
\<close>

theorem newer_listings_notified:
  assumes "lastAnnouncementId s = Some lastId"
    and "lastId \<in> id_num ` set (snapshot w)"
    and "\<forall>a \<in> set (butlast (listings (newer_than lastId (snapshot w)))).
           isWellFormed (title a)"
  shows "notified (trace (snd (alarm w s))) =
           notified (trace s) @ listings (newer_than lastId (snapshot w))"
proof -
  from assms(2) have nonempty: "snapshot w \<noteq> []" by auto
  show ?thesis
  proof (cases "lastId = id_num (snapshot w ! 0)")
    case True
    with assms(1) have "lastAnnouncementId s = Some (id_num (snapshot w ! 0))" by simp
    from alarm_same [OF nonempty this] obtain es where
      "snd (alarm w s) = snd (rearm w (s\<lparr>trace := trace s @ es\<rparr>))" "notified es = []"
      by blast
    moreover have "newer_than lastId (snapshot w) = []"
      using newer_than_head [OF nonempty] True by simp
    ultimately show ?thesis by (simp add: rearm_eq listings_def)
  next
    case False
    from alarm_walk [OF nonempty assms(1) False] obtain ok n m es where
      es: "snd (alarm w s) =
             snd (rearm w
               (if ok then
                  s\<lparr>ticks := ticks s + n, requests := requests s + m,
                    lastAnnouncementId := Some (id_num (snapshot w ! 0)),
                    storage := (storage s)
                      \<lparr>stored_lastAnnouncementId := Some (id_num (snapshot w ! 0))\<rparr>,
                    trace := trace s @ es\<rparr>
                else
                  s\<lparr>ticks := ticks s + n, requests := requests s + m,
                    trace := trace s @ es\<rparr>))"
        "(\<forall>a \<in> set (butlast (listings (newer_than lastId (snapshot w)))).
             isWellFormed (title a))
           \<longrightarrow> notified es = listings (newer_than lastId (snapshot w))"
      by blast
    from es(2) assms(3) have "notified es = listings (newer_than lastId (snapshot w))"
      by blast
    then show ?thesis by (simp add: es(1) rearm_eq)
  qed
qed

theorem newer_listings_notified_witness:
  "lastAnnouncementId (fresh [hook ''a'', hook ''b''] (Some 3) True) = Some 3
   \<and> 3 \<in> id_num ` set (snapshot (world_of
        [entry 5 (str ''Binance Will List ABC''), entry 4 (str ''Market Update''),
         entry 3 (str ''Binance Will List XYZ'')] all_fail))
   \<and> notified (trace (snd (alarm
        (world_of
          [entry 5 (str ''Binance Will List ABC''), entry 4 (str ''Market Update''),
           entry 3 (str ''Binance Will List XYZ'')] all_fail)
        (fresh [hook ''a'', hook ''b''] (Some 3) True))))
     = [entry 5 (str ''Binance Will List ABC'')]
   \<and> notified (trace (snd (alarm
        (world_of [entry 6 marker, entry 5 [], entry 4 (marker @ [0xD800]), entry 3 marker]
           all_ok)
        (fresh [hook ''a'', hook ''b''] (Some 3) True))))
     = [entry 6 marker, entry 4 (marker @ [0xD800])]"
proof -
  have m: "is_listing (entry 5 (str ''Binance Will List ABC''))"
    "\<not> is_listing (entry 4 (str ''Market Update''))"
    by (simp_all add: is_listing_def marker_def str_def)
  have l: "listings (newer_than 3
        [entry 5 (str ''Binance Will List ABC''), entry 4 (str ''Market Update''),
         entry 3 (str ''Binance Will List XYZ'')]) = [entry 5 (str ''Binance Will List ABC'')]"
    by (simp add: listings_def newer_than_def m)
  have l': "listings (newer_than 3
        [entry 6 marker, entry 5 [], entry 4 (marker @ [0xD800]), entry 3 marker])
      = [entry 6 marker, entry 4 (marker @ [0xD800])]"
    by (simp add: listings_def newer_than_def)
  show ?thesis
    using newer_listings_notified [of "fresh [hook ''a'', hook ''b''] (Some 3) True" 3
      "world_of
          [entry 5 (str ''Binance Will List ABC''), entry 4 (str ''Market Update''),
           entry 3 (str ''Binance Will List XYZ'')] all_fail"]
      newer_listings_notified [of "fresh [hook ''a'', hook ''b''] (Some 3) True" 3
        "world_of [entry 6 marker, entry 5 [], entry 4 (marker @ [0xD800]), entry 3 marker]
           all_ok"]
    by (simp add: l l') (simp add: fresh_def)
qed

theorem newer_listings_counterexample:
  "lastAnnouncementId (fresh [hook ''a''] (Some 1) True) = Some 1
   \<and> 1 \<in> id_num ` set (snapshot (world_of
        [entry 3 (marker @ [0xD800]), entry 2 marker, entry 1 []] all_ok))
   \<and> notified (trace (snd (alarm
        (world_of [entry 3 (marker @ [0xD800]), entry 2 marker, entry 1 []] all_ok)
        (fresh [hook ''a''] (Some 1) True))))
     \<noteq> notified (trace (fresh [hook ''a''] (Some 1) True))
       @ listings (newer_than 1 (snapshot (world_of
           [entry 3 (marker @ [0xD800]), entry 2 marker, entry 1 []] all_ok)))"
proof -
  have "notified (trace (snd (alarm
        (world_of [entry 3 (marker @ [0xD800]), entry 2 marker, entry 1 []] all_ok)
        (fresh [hook ''a''] (Some 1) True)))) = [entry 3 (marker @ [0xD800])]"
    by (simp add: cycle_defs)
  moreover have "listings (newer_than 1
      [entry 3 (marker @ [0xD800]), entry 2 marker, entry 1 []])
    = [entry 3 (marker @ [0xD800]), entry 2 marker]"
    by (simp add: listings_def newer_than_def)
  ultimately show ?thesis by (simp add: fresh_def)
qed

text \<open>
  C2. Every cycle, in every world and from every state, returns normally: whatever the
  \<open>try\<close> block threw is caught. It does not change the monitoring flag. If the flag
  is true the cycle ends with the alarm armed for the last reading of the clock (the
  one the \<open>finally\<close> block takes) plus \<open>pollingInterval\<close>; if it is false the cycle
  makes no call to \<open>setAlarm\<close> and leaves the alarm as it was.
\<close>

theorem alarm_always_rearms:
  "fst (alarm w s) = Inr ()
   \<and> isMonitoring (snd (alarm w s)) = isMonitoring s
   \<and> (isMonitoring s \<longrightarrow>
        ticks s < ticks (snd (alarm w s))
      \<and> armed (storage (snd (alarm w s))) =
          Some (clock w (ticks (snd (alarm w s)) - 1) + pollingInterval s)
      \<and> last (alarms_set (trace (snd (alarm w s)))) =
          clock w (ticks (snd (alarm w s)) - 1) + pollingInterval s)
   \<and> (\<not> isMonitoring s \<longrightarrow>
        armed (storage (snd (alarm w s))) = armed (storage s)
      \<and> alarms_set (trace (snd (alarm w s))) = alarms_set (trace s))"
proof -
  obtain X n where X: "snd (alarm w s) = snd (rearm w X)"
    "isMonitoring X = isMonitoring s" "pollingInterval X = pollingInterval s"
    "ticks X = ticks s + n"
    "alarms_set (trace X) =
         alarms_set (trace s)
         @ (if snapshot w = [] \<and> isMonitoring s
            then [clock w (ticks s) + pollingInterval s] else [])"
    "\<not> isMonitoring s \<longrightarrow> armed (storage X) = armed (storage s)"
    using alarm_general [of w s] by blast
  have "fst (alarm w s) = Inr ()" by (simp add: alarm_unfold)
  then show ?thesis using X(2-6) by (simp add: X(1) rearm_eq)
qed

theorem alarm_always_rearms_witness:
  "isMonitoring (fresh [] (Some 1) True)
   \<and> fst (alarm (world_of [entry 2 (marker @ [0xD800])] all_ok) (fresh [] (Some 1) True))
       = Inr ()
   \<and> armed (storage (snd (alarm (world_of [entry 2 (marker @ [0xD800])] all_ok)
                                  (fresh [] (Some 1) True)))) = Some 3000
   \<and> \<not> isMonitoring (fresh [] (Some 1) False)
   \<and> fst (alarm (world_of [entry 2 (marker @ [0xD800])] all_ok) (fresh [] (Some 1) False))
       = Inr ()
   \<and> armed (storage (snd (alarm (world_of [entry 2 (marker @ [0xD800])] all_ok)
                                  (fresh [] (Some 1) False)))) = None
   \<and> alarms_set (trace (snd (alarm (world_of [entry 2 (marker @ [0xD800])] all_ok)
                                     (fresh [] (Some 1) False)))) = []"
proof -
  have t: "ticks (snd (alarm (world_of [entry 2 (marker @ [0xD800])] all_ok)
                             (fresh [] (Some 1) True))) = 1"
    by (simp add: cycle_defs)
  show ?thesis
    using alarm_always_rearms [of "world_of [entry 2 (marker @ [0xD800])] all_ok"
                                  "fresh [] (Some 1) True"]
          alarm_always_rearms [of "world_of [entry 2 (marker @ [0xD800])] all_ok"
                                  "fresh [] (Some 1) False"]
    by (simp add: t) (simp add: fresh_def empty_storage_def)
qed

text \<open>
  C3, as amended. For every sequence of cycles, once \<open>lastAnnouncementId\<close> is set it
  stays set, and its value after the sequence is the value it had or the newest id of
  one of the non-empty snapshots of the sequence: a cycle writes nothing else into it.
  So it does not fall below its value \<open>v\<close> as long as no snapshot's newest id is below
  \<open>v\<close>.

  As stated, with a value that never moves backwards, the claim fails: the code never
  compares ids, so a snapshot whose newest id is 3 moves a marker that a cycle had set
  to 5 back to 3.
\<close>

theorem marker_stays_set:
  assumes "lastAnnouncementId s = Some v"
  shows "\<exists>v'. lastAnnouncementId (alarms ws s) = Some v'
          \<and> (v' = v \<or> (\<exists>w \<in> set ws. snapshot w \<noteq> [] \<and> v' = id_num (snapshot w ! 0)))
          \<and> ((\<forall>w \<in> set ws. snapshot w \<noteq> [] \<longrightarrow> v \<le> id_num (snapshot w ! 0)) \<longrightarrow> v \<le> v')"
  using assms
proof (induction ws arbitrary: s v)
  case Nil
  then show ?case by simp
next
  case (Cons w ws)
  from alarm_marker_step [OF Cons.prems, of w]
  consider (same) "lastAnnouncementId (snd (alarm w s)) = Some v"
    | (new) "snapshot w \<noteq> []"
        "lastAnnouncementId (snd (alarm w s)) = Some (id_num (snapshot w ! 0))"
    by blast
  then show ?case
  proof cases
    case same
    from Cons.IH [OF same] show ?thesis by auto
  next
    case new
    from Cons.IH [OF new(2)] obtain v' where
      v': "lastAnnouncementId (alarms ws (snd (alarm w s))) = Some v'"
        "v' = id_num (snapshot w ! 0)
           \<or> (\<exists>w' \<in> set ws. snapshot w' \<noteq> [] \<and> v' = id_num (snapshot w' ! 0))"
      by blast
    from v'(2) new(1)
    have "\<exists>w' \<in> set (w # ws). snapshot w' \<noteq> [] \<and> v' = id_num (snapshot w' ! 0)"
      by auto
    then show ?thesis using v'(1) by auto
  qed
qed

theorem marker_stays_set_witness:
  "lastAnnouncementId (fresh [] (Some 4) True) = Some 4
   \<and> (lastAnnouncementId
        (alarms [world_of [entry 6 []] all_ok, world_of [] all_ok, world_of [entry 9 []] all_ok]
           (fresh [] (Some 4) True))
        \<in> {Some 4, Some 6, Some 9})
   \<and> (case lastAnnouncementId
        (alarms [world_of [entry 6 []] all_ok, world_of [] all_ok, world_of [entry 9 []] all_ok]
           (fresh [] (Some 4) True)) of None \<Rightarrow> False | Some v' \<Rightarrow> 4 \<le> v')"
  using marker_stays_set [of "fresh [] (Some 4) True" 4
          "[world_of [entry 6 []] all_ok, world_of [] all_ok, world_of [entry 9 []] all_ok]"]
  by (auto simp: fresh_def)

theorem marker_moves_back_counterexample:
  "lastAnnouncementId (alarms [world_of [entry 5 []] all_ok] (fresh [] None True)) = Some 5
   \<and> lastAnnouncementId
        (alarms [world_of [entry 5 []] all_ok, world_of [entry 3 []] all_ok]
           (fresh [] None True)) = Some 3
   \<and> (3 :: int) < 5"
  by (simp add: cycle_defs)

text \<open>
  C4, as amended. For every non-empty snapshot in which no listing newer than the
  stored \<open>lastAnnouncementId\<close> has a title with a lone surrogate, after one cycle
  \<open>lastAnnouncementId\<close> is the id of the newest entry, whatever the webhooks reply
  (\<open>r\<close> is any sequence of replies); and so is the stored copy, if it agreed with the
  field before the cycle. For an empty snapshot the cycle changes neither the fields
  \<open>lastAnnouncementId\<close>, \<open>_isMonitoring\<close>, \<open>webhooks\<close>, \<open>watchList\<close> nor their stored copies.

  As stated, for every non-empty snapshot, the claim fails: when the notifier throws a
  URIError the cycle skips the update and \<open>lastAnnouncementId\<close> keeps its old value.
\<close>

theorem marker_after_cycle:
  "(snapshot w \<noteq> [] \<longrightarrow>
      (\<forall>lastId. lastAnnouncementId s = Some lastId \<longrightarrow>
         (\<forall>a \<in> set (listings (newer_than lastId (snapshot w))). isWellFormed (title a))) \<longrightarrow>
      lastAnnouncementId (snd (alarm (w\<lparr>webhook_reply := r\<rparr>) s)) =
        Some (id_num (snapshot w ! 0))
    \<and> (stored_lastAnnouncementId (storage s) = lastAnnouncementId s \<longrightarrow>
        stored_lastAnnouncementId (storage (snd (alarm (w\<lparr>webhook_reply := r\<rparr>) s))) =
          Some (id_num (snapshot w ! 0))))
   \<and> (snapshot w = [] \<longrightarrow>
        lastAnnouncementId (snd (alarm w s)) = lastAnnouncementId s
      \<and> isMonitoring (snd (alarm w s)) = isMonitoring s
      \<and> webhooks (snd (alarm w s)) = webhooks s
      \<and> watchList (snd (alarm w s)) = watchList s
      \<and> stored_lastAnnouncementId (storage (snd (alarm w s))) =
          stored_lastAnnouncementId (storage s)
      \<and> stored_isMonitoring (storage (snd (alarm w s))) = stored_isMonitoring (storage s)
      \<and> stored_webhooks (storage (snd (alarm w s))) = stored_webhooks (storage s)
      \<and> stored_watchList (storage (snd (alarm w s))) = stored_watchList (storage s))"
proof (intro conjI impI)
  let ?w = "w\<lparr>webhook_reply := r\<rparr>"
  let ?new = "id_num (snapshot w ! 0)"
  assume nonempty: "snapshot w \<noteq> []"
    and wf: "\<forall>lastId. lastAnnouncementId s = Some lastId \<longrightarrow>
         (\<forall>a \<in> set (listings (newer_than lastId (snapshot w))). isWellFormed (title a))"
  have ne: "snapshot ?w \<noteq> []" using nonempty by simp
  have both: "lastAnnouncementId (snd (alarm ?w s)) = Some ?new
    \<and> (stored_lastAnnouncementId (storage s) = lastAnnouncementId s \<longrightarrow>
        stored_lastAnnouncementId (storage (snd (alarm ?w s))) = Some ?new)"
  proof (cases "lastAnnouncementId s")
    case None
    from alarm_first [OF ne None] obtain es where
      "snd (alarm ?w s) =
               snd (rearm ?w (s\<lparr>lastAnnouncementId := Some (id_num (snapshot ?w ! 0)),
                               storage := (storage s)
                                 \<lparr>stored_lastAnnouncementId := Some (id_num (snapshot ?w ! 0))\<rparr>,
                               trace := trace s @ es\<rparr>))"
      by blast
    then show ?thesis by (simp add: rearm_eq)
  next
    case (Some lastId)
    show ?thesis
    proof (cases "lastId = ?new")
      case True
      with Some have "lastAnnouncementId s = Some (id_num (snapshot ?w ! 0))" by simp
      from alarm_same [OF ne this] obtain es where
        "snd (alarm ?w s) = snd (rearm ?w (s\<lparr>trace := trace s @ es\<rparr>))"
        by blast
      with Some True show ?thesis by (simp add: rearm_eq)
    next
      case False
      hence d: "lastId \<noteq> id_num (snapshot ?w ! 0)" by simp
      from wf Some
      have "\<forall>a \<in> set (listings (newer_than lastId (snapshot ?w))). isWellFormed (title a)"
        by simp
      from alarm_walk_wellformed [OF ne Some d this] show ?thesis by simp
    qed
  qed
  from both show "lastAnnouncementId (snd (alarm ?w s)) = Some ?new" by blast
  assume "stored_lastAnnouncementId (storage s) = lastAnnouncementId s"
  with both show "stored_lastAnnouncementId (storage (snd (alarm ?w s))) = Some ?new"
    by blast
qed (simp_all add: alarm_empty_fields)

theorem marker_after_cycle_witness:
  "snapshot (world_of [entry 5 marker, entry 4 []] all_ok) \<noteq> []
   \<and> lastAnnouncementId
        ((fresh [hook ''a''] (Some 4) True)
           \<lparr>storage := empty_storage\<lparr>stored_lastAnnouncementId := Some 4\<rparr>\<rparr>) = Some 4
   \<and> lastAnnouncementId (snd (alarm
        ((world_of [entry 5 marker, entry 4 []] all_ok)\<lparr>webhook_reply := all_fail\<rparr>)
        ((fresh [hook ''a''] (Some 4) True)
           \<lparr>storage := empty_storage\<lparr>stored_lastAnnouncementId := Some 4\<rparr>\<rparr>))) = Some 5
   \<and> stored_lastAnnouncementId (storage (snd (alarm
        ((world_of [entry 5 marker, entry 4 []] all_ok)\<lparr>webhook_reply := all_fail\<rparr>)
        ((fresh [hook ''a''] (Some 4) True)
           \<lparr>storage := empty_storage\<lparr>stored_lastAnnouncementId := Some 4\<rparr>\<rparr>)))) = Some 5
   \<and> snapshot (world_of [] all_ok) = []
   \<and> lastAnnouncementId (snd (alarm (world_of [] all_ok) (fresh [hook ''a''] (Some 4) True)))
       = Some 4
   \<and> stored_lastAnnouncementId (storage
        (snd (alarm (world_of [] all_ok) (fresh [hook ''a''] (Some 4) True)))) = None"
  using marker_after_cycle [of "world_of [entry 5 marker, entry 4 []] all_ok"
          "(fresh [hook ''a''] (Some 4) True)
             \<lparr>storage := empty_storage\<lparr>stored_lastAnnouncementId := Some 4\<rparr>\<rparr>" all_fail]
        marker_after_cycle [of "world_of [] all_ok" "fresh [hook ''a''] (Some 4) True" all_ok]
  by (simp add: listings_def newer_than_def) (simp add: fresh_def empty_storage_def)

theorem marker_after_cycle_counterexample:
  "snapshot (world_of [entry 2 (marker @ [0xD800])] all_ok) \<noteq> []
   \<and> lastAnnouncementId
        (snd (alarm (world_of [entry 2 (marker @ [0xD800])] all_ok) (fresh [] (Some 1) True)))
      \<noteq> Some (id_num (snapshot (world_of [entry 2 (marker @ [0xD800])] all_ok) ! 0))"
proof -
  have "lastAnnouncementId
        (snd (alarm (world_of [entry 2 (marker @ [0xD800])] all_ok) (fresh [] (Some 1) True)))
      = Some 1"
    by (simp add: cycle_defs)
  then show ?thesis by simp
qed

text \<open>
  C5. First run: for every non-empty snapshot, when \<open>lastAnnouncementId\<close> is absent the
  cycle sets it to the id of the newest entry, puts that id into the storage, and
  calls the notifier for no entry (and posts nothing). The same holds for the first
  wake with a non-empty snapshot after any number of wakes with an empty one.
\<close>

theorem first_run_sets_baseline:
  assumes "lastAnnouncementId s = None"
    and "\<forall>w' \<in> set ws. snapshot w' = []"
    and "snapshot w \<noteq> []"
  shows "lastAnnouncementId (snd (alarm w (alarms ws s))) = Some (id_num (snapshot w ! 0))
       \<and> stored_lastAnnouncementId (storage (snd (alarm w (alarms ws s)))) =
           Some (id_num (snapshot w ! 0))
       \<and> notified (trace (snd (alarm w (alarms ws s)))) = notified (trace s)
       \<and> posted (trace (snd (alarm w (alarms ws s)))) = posted (trace s)"
proof -
  let ?s1 = "alarms ws s"
  have s1: "lastAnnouncementId ?s1 = None" "notified (trace ?s1) = notified (trace s)"
    "posted (trace ?s1) = posted (trace s)"
    using alarms_empty_fields [OF assms(2), of s] assms(1) by simp_all
  obtain es where es: "snd (alarm w ?s1) =
               snd (rearm w (?s1\<lparr>lastAnnouncementId := Some (id_num (snapshot w ! 0)),
                               storage := (storage ?s1)
                                 \<lparr>stored_lastAnnouncementId := Some (id_num (snapshot w ! 0))\<rparr>,
                               trace := trace ?s1 @ es\<rparr>))"
     "notified es = []" "posted es = []"
    using alarm_first [OF assms(3) s1(1)] by blast
  show ?thesis by (simp add: es rearm_eq s1)
qed

theorem first_run_sets_baseline_witness:
  "lastAnnouncementId
     (snd (alarm (world_of [entry 8 marker, entry 7 marker] all_ok)
            (alarms [world_of [] all_ok] (fresh [hook ''h''] None True)))) = Some 8
   \<and> stored_lastAnnouncementId (storage
     (snd (alarm (world_of [entry 8 marker, entry 7 marker] all_ok)
            (alarms [world_of [] all_ok] (fresh [hook ''h''] None True))))) = Some 8
   \<and> notified (trace
     (snd (alarm (world_of [entry 8 marker, entry 7 marker] all_ok)
            (alarms [world_of [] all_ok] (fresh [hook ''h''] None True))))) = []
   \<and> posted (trace
     (snd (alarm (world_of [entry 8 marker, entry 7 marker] all_ok)
            (alarms [world_of [] all_ok] (fresh [hook ''h''] None True))))) = []"
  using first_run_sets_baseline [of "fresh [hook ''h''] None True" "[world_of [] all_ok]"
          "world_of [entry 8 marker, entry 7 marker] all_ok"]
  by (simp add: fresh_def entry_def)

text \<open>
  C6, as amended. For every entry whose title has no lone surrogate, every list of
  subscribers and every world, the notifier returns normally. When it returns, every
  delivery has finished: it has made one request per subscriber, in the order of the
  list, and the trace it returns holds the \<open>console.error\<close> of every delivery whose
  reply was a transport error or a response that is not OK, and of no other. The
  requests it makes do not depend on what any subscriber replies (\<open>r\<close> is any other
  sequence of replies).

  As stated, for every entry, the claim fails: \<open>encodeURIComponent\<close> is called on the
  title before the per-subscriber \<open>try\<close>, and on a lone surrogate the notifier throws a
  URIError without making any request.
\<close>

theorem notifier_isolates_failures:
  assumes "isWellFormed (title a)"
  shows "fst (notifyWebhooks w a s) = Inr ()
       \<and> map fst (posted (trace (snd (notifyWebhooks w a s)))) =
           map fst (posted (trace s)) @ map url (webhooks s)
       \<and> requests (snd (notifyWebhooks w a s)) = requests s + length (webhooks s)
       \<and> logged (trace (snd (notifyWebhooks w a s))) =
           logged (trace s)
           @ List.map_filter (\<lambda>k. delivery_failure (webhook_reply w k))
               [requests s ..< requests s + length (webhooks s)]
       \<and> posted (trace (snd (notifyWebhooks (w\<lparr>webhook_reply := r\<rparr>) a s))) =
           posted (trace (snd (notifyWebhooks w a s)))"
proof -
  from assms obtain u where
    u: "getAnnouncementUrl (title a) (extractAnnouncementCode (code a)) = Inr u"
    using getAnnouncementUrl_returns by blast
  let ?p = "\<lparr>timestamp = clock w (ticks s),
             p_announcement =
               \<lparr>p_title = title a, p_code = code a, p_url = u,
                p_publishDate = publishDate a\<rparr>\<rparr>"
  from notifyWebhooks_returns [OF u, of w s] obtain es where
    es: "notifyWebhooks w a s =
            (Inr (), s\<lparr>ticks := ticks s + 1,
                       requests := requests s + length (webhooks s),
                       trace := trace s @ Called_notifyWebhooks a # es\<rparr>)"
      "posted es = map (\<lambda>h. (url h, headers_of h, ?p)) (webhooks s)"
    by blast
  from notifyWebhooks_returns [OF u, of "w\<lparr>webhook_reply := r\<rparr>" s] obtain es' where
    es': "notifyWebhooks (w\<lparr>webhook_reply := r\<rparr>) a s =
            (Inr (), s\<lparr>ticks := ticks s + 1,
                       requests := requests s + length (webhooks s),
                       trace := trace s @ Called_notifyWebhooks a # es'\<rparr>)"
      "posted es' = map (\<lambda>h. (url h, headers_of h, ?p)) (webhooks s)"
    by auto
  have "fst (notifyWebhooks w a s) = Inr ()
       \<and> map fst (posted (trace (snd (notifyWebhooks w a s)))) =
           map fst (posted (trace s)) @ map url (webhooks s)
       \<and> requests (snd (notifyWebhooks w a s)) = requests s + length (webhooks s)
       \<and> posted (trace (snd (notifyWebhooks (w\<lparr>webhook_reply := r\<rparr>) a s))) =
           posted (trace (snd (notifyWebhooks w a s)))"
    by (simp add: es es' comp_def)
  with notifyWebhooks_logged [OF assms, of w s] show ?thesis by blast
qed

theorem notifier_isolates_failures_witness:
  "isWellFormed (title (entry 7 marker))
   \<and> fst (notifyWebhooks (world_of [] all_fail) (entry 7 marker)
            (fresh [hook ''a'', hook ''b'', hook ''c''] None True)) = Inr ()
   \<and> map fst (posted (trace (snd (notifyWebhooks (world_of [] all_fail) (entry 7 marker)
            (fresh [hook ''a'', hook ''b'', hook ''c''] None True)))))
      = [str ''a'', str ''b'', str ''c'']
   \<and> requests (snd (notifyWebhooks (world_of [] all_fail) (entry 7 marker)
            (fresh [hook ''a'', hook ''b'', hook ''c''] None True))) = 3
   \<and> logged (trace (snd (notifyWebhooks (world_of [] all_fail) (entry 7 marker)
            (fresh [hook ''a'', hook ''b'', hook ''c''] None True))))
      = [NetworkError, WebhookFailed, NetworkError]
   \<and> posted (trace (snd (notifyWebhooks ((world_of [] all_fail)\<lparr>webhook_reply := all_ok\<rparr>)
            (entry 7 marker) (fresh [hook ''a'', hook ''b'', hook ''c''] None True))))
      = posted (trace (snd (notifyWebhooks (world_of [] all_fail) (entry 7 marker)
            (fresh [hook ''a'', hook ''b'', hook ''c''] None True))))"
proof -
  have range: "[0 ..< 3] = [0, Suc 0, 2 :: nat]"
    by (simp add: upt_rec numeral_3_eq_3)
  show ?thesis
    using notifier_isolates_failures [of "entry 7 marker" "world_of [] all_fail"
             "fresh [hook ''a'', hook ''b'', hook ''c''] None True" all_ok]
    by simp (simp add: fresh_def hook_def range map_filter_simps all_fail_def)
qed

theorem notifier_throws_counterexample:
  "fst (notifyWebhooks (world_of [] all_ok) (entry 7 [0xD800]) (fresh [hook ''a''] None True))
     = Inl URIError
   \<and> posted (trace (snd (notifyWebhooks (world_of [] all_ok) (entry 7 [0xD800])
                           (fresh [hook ''a''] None True)))) = []"
  by (simp add: notifyWebhooks_throws) (simp add: fresh_def)

text \<open>
  C7, as amended. For every non-empty snapshot in which the stored \<open>lastAnnouncementId\<close>
  does not occur at all, and in which no listing has a title with a lone surrogate,
  the walk runs through the whole snapshot: the notifier is called for every listing
  of the snapshot, in order, and \<open>lastAnnouncementId\<close> then becomes the id of the newest
  entry, in the object and in the storage.

  As stated, without the condition on the titles, the claim fails: after the URIError
  of the notifier the later listings are not notified and \<open>lastAnnouncementId\<close> keeps
  its old value.
\<close>

theorem absent_marker_renotifies_all:
  assumes "lastAnnouncementId s = Some lastId"
    and "snapshot w \<noteq> []"
    and "lastId \<notin> id_num ` set (snapshot w)"
    and "\<forall>a \<in> set (listings (snapshot w)). isWellFormed (title a)"
  shows "notified (trace (snd (alarm w s))) = notified (trace s) @ listings (snapshot w)
       \<and> lastAnnouncementId (snd (alarm w s)) = Some (id_num (snapshot w ! 0))
       \<and> stored_lastAnnouncementId (storage (snd (alarm w s))) =
           Some (id_num (snapshot w ! 0))"
proof -
  have all: "newer_than lastId (snapshot w) = snapshot w"
    using assms(3) by (rule newer_than_absent)
  have "snapshot w ! 0 \<in> set (snapshot w)" using assms(2) by simp
  with assms(3) have differs: "lastId \<noteq> id_num (snapshot w ! 0)" by blast
  from assms(4) all
  have "\<forall>a \<in> set (listings (newer_than lastId (snapshot w))). isWellFormed (title a)"
    by simp
  from alarm_walk_wellformed [OF assms(2) assms(1) differs this] all
  show ?thesis by simp
qed

theorem absent_marker_renotifies_all_witness:
  "lastAnnouncementId (fresh [hook ''a''] (Some 9) False) = Some 9
   \<and> snapshot (world_of [entry 12 marker, entry 11 [], entry 10 (marker @ marker)] all_fail)
       \<noteq> []
   \<and> 9 \<notin> id_num ` set (snapshot
        (world_of [entry 12 marker, entry 11 [], entry 10 (marker @ marker)] all_fail))
   \<and> notified (trace (snd (alarm
        (world_of [entry 12 marker, entry 11 [], entry 10 (marker @ marker)] all_fail)
        (fresh [hook ''a''] (Some 9) False))))
      = [entry 12 marker, entry 10 (marker @ marker)]
   \<and> lastAnnouncementId (snd (alarm
        (world_of [entry 12 marker, entry 11 [], entry 10 (marker @ marker)] all_fail)
        (fresh [hook ''a''] (Some 9) False))) = Some 12"
  using absent_marker_renotifies_all [of "fresh [hook ''a''] (Some 9) False" 9
     "world_of [entry 12 marker, entry 11 [], entry 10 (marker @ marker)] all_fail"]
  by (simp add: listings_def) (simp add: fresh_def)

theorem absent_marker_counterexample:
  "lastAnnouncementId (fresh [] (Some 9) True) = Some 9
   \<and> snapshot (world_of [entry 12 (marker @ [0xD800]), entry 11 marker] all_ok) \<noteq> []
   \<and> 9 \<notin> id_num ` set (snapshot
        (world_of [entry 12 (marker @ [0xD800]), entry 11 marker] all_ok))
   \<and> entry 11 marker \<in> set (listings (snapshot
        (world_of [entry 12 (marker @ [0xD800]), entry 11 marker] all_ok)))
   \<and> entry 11 marker \<notin> set (notified (trace (snd (alarm
        (world_of [entry 12 (marker @ [0xD800]), entry 11 marker] all_ok)
        (fresh [] (Some 9) True)))))
   \<and> lastAnnouncementId (snd (alarm
        (world_of [entry 12 (marker @ [0xD800]), entry 11 marker] all_ok)
        (fresh [] (Some 9) True))) = Some 9"
proof -
  have "snd (alarm
        (world_of [entry 12 (marker @ [0xD800]), entry 11 marker] all_ok)
        (fresh [] (Some 9) True)) =
     (fresh [] (Some 9) True)
       \<lparr>storage := empty_storage\<lparr>armed := Some 3000\<rparr>,
        ticks := 1,
        trace := [Feed_GET (BINANCE_API @ str ''?'' @ params),
                  Called_notifyWebhooks (entry 12 (marker @ [0xD800])),
                  Console_error URIError, SetAlarm 3000]\<rparr>"
    by (simp add: cycle_defs)
  then show ?thesis by (simp add: listings_def) (simp add: fresh_def entry_def)
qed

text \<open>
  C8, as amended. \<open>fetchAnnouncements\<close> never throws. It resolves with the empty list
  when the request is rejected, when the response is not OK, when the body is not
  JSON, and when the body is null or lacks \<open>data\<close> or \<open>data.catalogs\<close>; otherwise it
  resolves with the list found under \<open>data.catalogs\<close>, whole. The page size 20 is a
  parameter of the request, which the method does make.

  As stated, with the result bounded by the page size, the claim fails: the method
  returns whatever list the feed sent, here one of 21 entries.
\<close>

theorem fetchAnnouncements_never_throws:
  "(\<exists>S. fst (fetchAnnouncements w s) = Inr S)
   \<and> (feed w = FetchRejected \<longrightarrow> fst (fetchAnnouncements w s) = Inr [])
   \<and> (feed w = Response False body \<longrightarrow> fst (fetchAnnouncements w s) = Inr [])
   \<and> (feed w = Response True JsonRejected \<longrightarrow> fst (fetchAnnouncements w s) = Inr [])
   \<and> (feed w = Response True (Json None) \<longrightarrow> fst (fetchAnnouncements w s) = Inr [])
   \<and> (feed w = Response True (Json (Some \<lparr>data = None\<rparr>)) \<longrightarrow>
        fst (fetchAnnouncements w s) = Inr [])
   \<and> (feed w = Response True (Json (Some \<lparr>data = Some \<lparr>catalogs = None\<rparr>\<rparr>)) \<longrightarrow>
        fst (fetchAnnouncements w s) = Inr [])
   \<and> (feed w = Response True (Json (Some \<lparr>data = Some \<lparr>catalogs = Some S\<rparr>\<rparr>)) \<longrightarrow>
        fst (fetchAnnouncements w s) = Inr S)
   \<and> Feed_GET (BINANCE_API @ str ''?'' @ str ''type=1&catalogId=48&pageNo=1&pageSize=20'')
        \<in> set (trace (snd (fetchAnnouncements w s)))"
proof -
  obtain es where
    es: "fetchAnnouncements w s = (Inr (snapshot w), s\<lparr>trace := trace s @ es\<rparr>)"
    using fetchAnnouncements_effect [of w s] by blast
  have "Feed_GET (BINANCE_API @ str ''?'' @ str ''type=1&catalogId=48&pageNo=1&pageSize=20'')
        \<in> set (trace (snd (fetchAnnouncements w s)))"
    by (simp add: fetchAnnouncements_def fetchAnnouncements_try_def try_catch_def
                  console_error_def params_def Let_def
             split: feed_outcome.splits json_outcome.splits)
  then show ?thesis
    by (simp add: es snapshot_def optional_catalogs_def or_empty_def)
qed

theorem fetchAnnouncements_never_throws_witness:
  "fst (fetchAnnouncements (world_with FetchRejected) (fresh [] None True)) = Inr []
   \<and> fst (fetchAnnouncements (world_with (Response False JsonRejected)) (fresh [] None True))
       = Inr []
   \<and> fst (fetchAnnouncements (world_with (Response True JsonRejected)) (fresh [] None True))
       = Inr []
   \<and> fst (fetchAnnouncements (world_with (Response True (Json None))) (fresh [] None True))
       = Inr []
   \<and> fst (fetchAnnouncements (world_with (Response True (Json (Some \<lparr>data = None\<rparr>))))
            (fresh [] None True)) = Inr []
   \<and> fst (fetchAnnouncements
            (world_with (Response True (Json (Some \<lparr>data = Some \<lparr>catalogs = None\<rparr>\<rparr>))))
            (fresh [] None True)) = Inr []
   \<and> fst (fetchAnnouncements
            (world_with (Response True (Json (Some
               \<lparr>data = Some \<lparr>catalogs = Some [entry 2 marker, entry 1 []]\<rparr>\<rparr>))))
            (fresh [] None True)) = Inr [entry 2 marker, entry 1 []]"
  using fetchAnnouncements_never_throws
          [where w = "world_with FetchRejected" and s = "fresh [] None True"]
        fetchAnnouncements_never_throws
          [where w = "world_with (Response False JsonRejected)" and s = "fresh [] None True"
             and body = JsonRejected]
        fetchAnnouncements_never_throws
          [where w = "world_with (Response True JsonRejected)" and s = "fresh [] None True"]
        fetchAnnouncements_never_throws
          [where w = "world_with (Response True (Json None))" and s = "fresh [] None True"]
        fetchAnnouncements_never_throws
          [where w = "world_with (Response True (Json (Some \<lparr>data = None\<rparr>)))"
             and s = "fresh [] None True"]
        fetchAnnouncements_never_throws
          [where w = "world_with (Response True (Json (Some
                        \<lparr>data = Some \<lparr>catalogs = None\<rparr>\<rparr>)))"
             and s = "fresh [] None True"]
        fetchAnnouncements_never_throws
          [where w = "world_with (Response True (Json (Some
                        \<lparr>data = Some \<lparr>catalogs = Some [entry 2 marker, entry 1 []]\<rparr>\<rparr>)))"
             and s = "fresh [] None True" and S = "[entry 2 marker, entry 1 []]"]
  by simp

theorem page_size_counterexample:
  "fst (fetchAnnouncements (world_of (replicate 21 (entry 1 [])) all_ok) (fresh [] None True))
     = Inr (replicate 21 (entry 1 []))
   \<and> \<not> length (replicate 21 (entry 1 [])) \<le> 20"
proof -
  obtain es where "fetchAnnouncements (world_of (replicate 21 (entry 1 [])) all_ok)
      (fresh [] None True) =
      (Inr (snapshot (world_of (replicate 21 (entry 1 [])) all_ok)),
       (fresh [] None True)\<lparr>trace := trace (fresh [] None True) @ es\<rparr>)"
    using fetchAnnouncements_effect by blast
  then show ?thesis by simp
qed

text \<open>
  C9. If the stored last-seen id is 0, the constructor restores \<open>lastAnnouncementId\<close> as
  null, and the next cycle with a non-empty snapshot then takes the branch of the first
  run: it sets \<open>lastAnnouncementId\<close> to the id of the newest entry, puts that id into
  the storage in place of the 0, and calls the notifier for no entry. Every stored id
  other than 0 is restored as it is.
\<close>

theorem restart_with_zero_marker:
  "(stored_lastAnnouncementId st = Some 0 \<longrightarrow>
      lastAnnouncementId (constructor p w0 st) = None
    \<and> (snapshot w \<noteq> [] \<longrightarrow>
         lastAnnouncementId (snd (alarm w (constructor p w0 st))) =
           Some (id_num (snapshot w ! 0))
       \<and> stored_lastAnnouncementId (storage (snd (alarm w (constructor p w0 st)))) =
           Some (id_num (snapshot w ! 0))
       \<and> notified (trace (snd (alarm w (constructor p w0 st)))) = []
       \<and> posted (trace (snd (alarm w (constructor p w0 st)))) = []))
   \<and> (stored_lastAnnouncementId st = Some v \<longrightarrow> v \<noteq> 0 \<longrightarrow>
        lastAnnouncementId (constructor p w0 st) = Some v)"
proof (intro conjI impI)
  assume zero: "stored_lastAnnouncementId st = Some 0"
  then show absent: "lastAnnouncementId (constructor p w0 st) = None"
    by (simp add: constructor_fields or_null_def)
  assume nonempty: "snapshot w \<noteq> []"
  let ?c = "constructor p w0 st"
  from alarm_first [OF nonempty absent] obtain es where
    es: "snd (alarm w ?c) =
               snd (rearm w (?c\<lparr>lastAnnouncementId := Some (id_num (snapshot w ! 0)),
                               storage := (storage ?c)
                                 \<lparr>stored_lastAnnouncementId := Some (id_num (snapshot w ! 0))\<rparr>,
                               trace := trace ?c @ es\<rparr>))"
      "notified es = []" "posted es = []"
    by blast
  show "lastAnnouncementId (snd (alarm w ?c)) = Some (id_num (snapshot w ! 0))"
    "stored_lastAnnouncementId (storage (snd (alarm w ?c))) = Some (id_num (snapshot w ! 0))"
    "notified (trace (snd (alarm w ?c))) = []"
    "posted (trace (snd (alarm w ?c))) = []"
    by (simp_all add: es rearm_eq constructor_fields)
next
  assume "stored_lastAnnouncementId st = Some v" "v \<noteq> 0"
  then show "lastAnnouncementId (constructor p w0 st) = Some v"
    by (simp add: constructor_fields or_null_def)
qed

theorem restart_with_zero_marker_witness:
  "stored_lastAnnouncementId (empty_storage\<lparr>stored_lastAnnouncementId := Some 0\<rparr>) = Some 0
   \<and> lastAnnouncementId (constructor None (world_of [] all_ok)
        (empty_storage\<lparr>stored_lastAnnouncementId := Some 0\<rparr>)) = None
   \<and> snapshot (world_of [entry 2 marker, entry 1 marker, entry 0 marker] all_ok) \<noteq> []
   \<and> lastAnnouncementId (snd (alarm
        (world_of [entry 2 marker, entry 1 marker, entry 0 marker] all_ok)
        (constructor None (world_of [] all_ok)
           (empty_storage\<lparr>stored_lastAnnouncementId := Some 0\<rparr>)))) = Some 2
   \<and> stored_lastAnnouncementId (storage (snd (alarm
        (world_of [entry 2 marker, entry 1 marker, entry 0 marker] all_ok)
        (constructor None (world_of [] all_ok)
           (empty_storage\<lparr>stored_lastAnnouncementId := Some 0\<rparr>))))) = Some 2
   \<and> notified (trace (snd (alarm
        (world_of [entry 2 marker, entry 1 marker, entry 0 marker] all_ok)
        (constructor None (world_of [] all_ok)
           (empty_storage\<lparr>stored_lastAnnouncementId := Some 0\<rparr>))))) = []
   \<and> stored_lastAnnouncementId (empty_storage\<lparr>stored_lastAnnouncementId := Some 41\<rparr>)
       = Some 41
   \<and> lastAnnouncementId (constructor None (world_of [] all_ok)
        (empty_storage\<lparr>stored_lastAnnouncementId := Some 41\<rparr>)) = Some 41"
  using restart_with_zero_marker
          [where st = "empty_storage\<lparr>stored_lastAnnouncementId := Some 0\<rparr>"
             and p = None and ?w0.0 = "world_of [] all_ok"
             and w = "world_of [entry 2 marker, entry 1 marker, entry 0 marker] all_ok"]
        restart_with_zero_marker
          [where st = "empty_storage\<lparr>stored_lastAnnouncementId := Some 41\<rparr>"
             and p = None and ?w0.0 = "world_of [] all_ok" and v = 41]
  by simp

text \<open>
  C10. With the monitoring flag true, a cycle whose snapshot is empty calls \<open>setAlarm\<close>
  twice, once in the branch of the empty snapshot and once in the \<open>finally\<close> block,
  each with its own reading of the clock plus \<open>pollingInterval\<close>; every other cycle
  calls it exactly once.
\<close>

theorem wake_count_per_cycle:
  assumes "isMonitoring s"
  shows "alarms_set (trace (snd (alarm w s))) =
           alarms_set (trace s)
           @ (if snapshot w = [] then
                [clock w (ticks s) + pollingInterval s,
                 clock w (ticks s + 1) + pollingInterval s]
              else [clock w (ticks (snd (alarm w s)) - 1) + pollingInterval s])"
proof -
  obtain X n where X: "snd (alarm w s) = snd (rearm w X)"
    "isMonitoring X = isMonitoring s" "pollingInterval X = pollingInterval s"
    "ticks X = ticks s + n"
    "snapshot w = [] \<longrightarrow> n = (if isMonitoring s then 1 else 0)"
    "alarms_set (trace X) =
         alarms_set (trace s)
         @ (if snapshot w = [] \<and> isMonitoring s
            then [clock w (ticks s) + pollingInterval s] else [])"
    using alarm_general [of w s] by blast
  show ?thesis using assms X(2-6) by (simp add: X(1) rearm_eq)
qed

theorem wake_count_per_cycle_witness:
  "isMonitoring (fresh [] None True)
   \<and> alarms_set (trace (snd (alarm (world_of [] all_ok) (fresh [] None True))))
       = [3000, 4000]
   \<and> alarms_set (trace (snd (alarm (world_of [entry 5 marker] all_ok) (fresh [] None True))))
       = [3000]"
proof -
  have t: "ticks (snd (alarm (world_of [entry 5 marker] all_ok) (fresh [] None True))) = 1"
    by (simp add: cycle_defs)
  show ?thesis
    using wake_count_per_cycle [of "fresh [] None True" "world_of [] all_ok"]
          wake_count_per_cycle [of "fresh [] None True" "world_of [entry 5 marker] all_ok"]
    by (simp add: t) (simp add: fresh_def)
qed

end
